theory Spec2Isabelle
  imports Main "HOL-Library.Word" "HOL-Library.Monad_Syntax"
begin

unbundle bit_operations_syntax

section \<open>The DNS message dumper of \<open>src/dns/dump_dns.c\<close>\<close>

text \<open>
  The C file prints a decoded DNS message on a \<open>FILE\<close>. The sink is only ever appended
  to (\<open>fprintf\<close>, \<open>fputs\<close>, \<open>putc\<close>), so every printing function is modelled by the
  text it appends, in the order the code writes it; text written before a \<open>goto error\<close>
  stays written. A result \<open>None\<close> stands for a memory access outside the object it is
  made on, which C leaves undefined.

  The functions of libresolv and libc that the file calls (\<open>ns_initparse\<close>, \<open>ns_parserr\<close>,
  \<open>ns_name_uncompress\<close>, \<open>p_class\<close>, \<open>p_type\<close>, \<open>p_rcode\<close>, \<open>strerror\<close> and the IPv6
  form of \<open>inet_ntop\<close>) are not part of the file; they are parameters, collected in the
  record \<open>libresolv\<close>. \<open>p_class\<close> and \<open>p_type\<close> return pointers, and for a number that
  has no name in their tables both return the same static buffer of the library; the model
  keeps the pointers apart from the text read through them.
\<close>

subsection \<open>Data\<close>

type_synonym u_char = "8 word"
type_synonym u_int16_t = "16 word"
type_synonym u_int32_t = "32 word"

datatype ns_sect = ns_s_qd | ns_s_an | ns_s_ns | ns_s_ar

datatype ns_flag = ns_f_qr | ns_f_opcode | ns_f_aa | ns_f_tc | ns_f_rd | ns_f_ra
  | ns_f_z | ns_f_ad | ns_f_cd | ns_f_rcode

text \<open>
  \<open>ns_rr\<close>: a parsed record. \<open>ns_rr_rdata\<close> is a pointer into the message buffer; it is
  kept as the offset from \<open>ns_msg_base\<close>.
\<close>

record ns_rr =
  ns_rr_name :: string
  ns_rr_type :: u_int16_t
  ns_rr_class :: u_int16_t
  ns_rr_ttl :: u_int32_t
  ns_rr_rdlen :: u_int16_t
  ns_rr_rdata :: nat

text \<open>
  \<open>ns_msg\<close>: the parse handle. \<open>ns_msg_base\<close> holds the bytes from \<open>_msg\<close> up to \<open>_eom\<close>,
  so \<open>ns_msg_end - ns_msg_base\<close> is its length.
\<close>

record ns_msg =
  ns_msg_base :: "u_char list"
  ns_msg_id :: u_int16_t
  ns_msg_flags :: u_int16_t
  ns_msg_count :: "ns_sect \<Rightarrow> u_int16_t"

text \<open>
  The pointer that \<open>p_class\<close> or \<open>p_type\<close> returns: \<open>Table name\<close> is the name of an entry
  of the symbol table of the library; \<open>Unname text\<close> is the one static buffer \<open>unname\<close> that
  the library keeps for the numbers without an entry, in which the call has just printed
  \<open>text\<close>.
\<close>

datatype name_ptr = Table string | Unname string

record libresolv =
  ns_initparse :: "u_char list \<Rightarrow> nat + ns_msg"
  ns_parserr :: "ns_msg \<Rightarrow> ns_sect \<Rightarrow> nat \<Rightarrow> nat + ns_rr"
  ns_name_uncompress :: "u_char list \<Rightarrow> nat \<Rightarrow> (string \<times> nat) option"
  p_class :: "nat \<Rightarrow> name_ptr"
  p_type :: "nat \<Rightarrow> name_ptr"
  p_type_first :: bool
  p_rcode :: "nat \<Rightarrow> string"
  strerror :: "nat \<Rightarrow> string"
  inet_ntop6 :: "u_char list \<Rightarrow> string"

text \<open>
  In \<open>libresolv\<close>: \<open>ns_initparse\<close> and \<open>ns_parserr\<close> return \<open>Inl errno\<close> where the C
  functions return a negative value and set \<open>errno\<close>; \<open>ns_name_uncompress m off\<close> is
  \<open>None\<close> where the C function returns a negative value, and otherwise the expanded name
  together with the number of bytes the compressed name takes at \<open>off\<close>. C leaves open in
  which order the arguments \<open>p_class(class)\<close> and \<open>p_type(type)\<close> of the \<open>fprintf\<close> of
  \<open>dump_dns_rr\<close> are evaluated; \<open>p_type_first\<close> holds where the compiler calls \<open>p_type\<close>
  before \<open>p_class\<close>.
\<close>

text \<open>The record types of \<open>arpa/nameser.h\<close> that the switch of \<open>dump_dns_rr\<close> names.\<close>

definition ns_t_a :: u_int16_t where "ns_t_a = 1"
definition ns_t_ns :: u_int16_t where "ns_t_ns = 2"
definition ns_t_cname :: u_int16_t where "ns_t_cname = 5"
definition ns_t_soa :: u_int16_t where "ns_t_soa = 6"
definition ns_t_ptr :: u_int16_t where "ns_t_ptr = 12"
definition ns_t_mx :: u_int16_t where "ns_t_mx = 15"
definition ns_t_aaaa :: u_int16_t where "ns_t_aaaa = 28"
definition ns_t_opt :: u_int16_t where "ns_t_opt = 41"

subsection \<open>Formatting of numbers and addresses\<close>

definition digit_char :: "nat \<Rightarrow> char" where
  "digit_char d = ''0123456789'' ! d"

text \<open>\<open>%u\<close>, \<open>%lu\<close> and, on a value that is not negative, \<open>%d\<close>.\<close>

function show_nat :: "nat \<Rightarrow> string" where
  "show_nat n = (if n < 10 then [digit_char n] else show_nat (n div 10) @ [digit_char (n mod 10)])"
  by pat_completeness auto
termination
  by (relation "measure (\<lambda>n. n)") auto

declare show_nat.simps [simp del]

text \<open>\<open>inet_ntop(AF_INET, src, ...)\<close>: the first four bytes at \<open>src\<close>, dotted decimal.\<close>

definition inet_ntop4 :: "u_char list \<Rightarrow> string" where
  "inet_ntop4 src =
     show_nat (unat (src ! 0)) @ ''.'' @ show_nat (unat (src ! 1)) @ ''.'' @
     show_nat (unat (src ! 2)) @ ''.'' @ show_nat (unat (src ! 3))"

subsection \<open>Reads from the message buffer\<close>

text \<open>\<open>get_bytes m cp n\<close>: the \<open>n\<close> bytes at offset \<open>cp\<close>, when they all lie in the buffer.\<close>

definition get_bytes :: "u_char list \<Rightarrow> nat \<Rightarrow> nat \<Rightarrow> u_char list option" where
  "get_bytes m cp n = (if cp + n \<le> length m then Some (take n (drop cp m)) else None)"

text \<open>The macros \<open>MY_GET16\<close> and \<open>MY_GET32\<close>: the value read and the advanced pointer.\<close>

definition MY_GET16 :: "u_char list \<Rightarrow> nat \<Rightarrow> (u_int16_t \<times> nat) option" where
  "MY_GET16 m cp =
     (if cp + 2 \<le> length m
      then Some (push_bit 8 (ucast (m ! cp)) OR ucast (m ! (cp + 1)), cp + 2)
      else None)"

definition MY_GET32 :: "u_char list \<Rightarrow> nat \<Rightarrow> (u_int32_t \<times> nat) option" where
  "MY_GET32 m cp =
     (if cp + 4 \<le> length m
      then Some (push_bit 24 (ucast (m ! cp)) OR push_bit 16 (ucast (m ! (cp + 1))) OR
                 push_bit 8 (ucast (m ! (cp + 2))) OR ucast (m ! (cp + 3)), cp + 4)
      else None)"

subsection \<open>\<open>dump_dns_rr\<close>\<close>

text \<open>
  The first \<open>fprintf\<close> of \<open>dump_dns_rr\<close> gets the two pointers of \<open>p_class(class)\<close> and
  \<open>p_type(type)\<close> and reads them only after both calls. \<open>stored\<close> is the buffer \<open>unname\<close>
  after a call that returned the given pointer, \<open>unname_after\<close> the buffer after both calls,
  \<open>deref\<close> the string read through a pointer, and \<open>class_text\<close> and \<open>type_text\<close> what
  the two \<open>%s\<close> print.
\<close>

fun stored :: "name_ptr \<Rightarrow> string \<Rightarrow> string" where
  "stored (Table name) unname = unname"
| "stored (Unname text) unname = text"

fun deref :: "name_ptr \<Rightarrow> string \<Rightarrow> string" where
  "deref (Table name) unname = name"
| "deref (Unname text) unname = unname"

definition unname_after :: "libresolv \<Rightarrow> nat \<Rightarrow> nat \<Rightarrow> string" where
  "unname_after env class type =
     (if p_type_first env
      then stored (p_class env class) (stored (p_type env type) [])
      else stored (p_type env type) (stored (p_class env class) []))"

definition class_text :: "libresolv \<Rightarrow> nat \<Rightarrow> nat \<Rightarrow> string" where
  "class_text env class type = deref (p_class env class) (unname_after env class type)"

definition type_text :: "libresolv \<Rightarrow> nat \<Rightarrow> nat \<Rightarrow> string" where
  "type_text env class type = deref (p_type env type) (unname_after env class type)"

text \<open>The \<open>error\<close> label: \<open>sprintf(buf, "[%u]", ns_rr_rdlen(*rr))\<close>.\<close>

definition rdlen_fallback :: "ns_rr \<Rightarrow> string" where
  "rdlen_fallback rr = ''['' @ show_nat (unat (ns_rr_rdlen rr)) @ '']''"

text \<open>
  One pass through the body of the \<open>while (optlen >= 4)\<close> loop of the \<open>ns_t_opt\<close> case, from
  the pointer \<open>rd\<close> and the count \<open>optlen\<close>. The result is \<open>(ok, rd', optlen', out)\<close>: \<open>ok\<close> is
  \<open>False\<close> where the code leaves by \<open>goto error\<close>, \<open>rd'\<close> and \<open>optlen'\<close> are the values of
  the two variables at that moment or at the end of the body, and \<open>out\<close> is the text written.
\<close>

definition edns0_option ::
  "libresolv \<Rightarrow> u_char list \<Rightarrow> nat \<Rightarrow> u_int16_t \<Rightarrow> (bool \<times> nat \<times> u_int16_t \<times> string) option" where
  "edns0_option env m rd optlen =
     do {
       (edns0optcod, rd) \<leftarrow> MY_GET16 m rd;
       (edns0lenopt, rd) \<leftarrow> MY_GET16 m rd;
       let optlen = optlen - 4;
       let out = ''edns0[code='' @ show_nat (unat edns0optcod) @ '',codelen='' @
                 show_nat (unat edns0lenopt) @ ''] '';
       if edns0lenopt > optlen then Some (False, rd, optlen, out)
       else do {
         let optlen = optlen - edns0lenopt;
         if edns0optcod = 0x08 then
           if edns0lenopt < 4 then Some (False, rd, optlen, out)
           else do {
             (afi, rd) \<leftarrow> MY_GET16 m rd;
             (masks, rd) \<leftarrow> MY_GET16 m rd;
             let edns0lenopt = edns0lenopt - 4;
             let srcmask = drop_bit 8 (masks AND 0xff00);
             let scomask = masks AND 0xff;
             bytes \<leftarrow> get_bytes m rd (min (unat edns0lenopt) 16);
             let addr = take 16 (bytes @ replicate 16 0);
             let (warn, buf) =
               (if afi = 0x1 then ([], inet_ntop4 addr)
                else if afi = 0x2 then ([], inet_ntop6 env addr)
                else (''unknown AFI '' @ show_nat (unat afi) @ [CHR 0x0A], ''<unknown>''));
             Some (True, rd + unat edns0lenopt, optlen,
                   out @ warn @ ''edns0_client_subnet='' @ buf @ ''/'' @ show_nat (unat srcmask) @
                   '' (scope '' @ show_nat (unat scomask) @ '')'')
           }
         else Some (True, rd + unat edns0lenopt, optlen, out)
       }
     }"

text \<open>
  The loop \<open>while (optlen >= 4)\<close> itself. It stops at the first \<open>goto error\<close>; the text of
  the passes made so far stays written.
\<close>

function edns0_walk ::
  "libresolv \<Rightarrow> u_char list \<Rightarrow> nat \<Rightarrow> u_int16_t \<Rightarrow> (bool \<times> nat \<times> u_int16_t \<times> string) option" where
  "edns0_walk env m rd optlen =
     (if optlen \<ge> 4 then
        (case edns0_option env m rd optlen of
           None \<Rightarrow> None
         | Some (ok, rd', optlen', out) \<Rightarrow>
             if ok then
               (case edns0_walk env m rd' optlen' of
                  None \<Rightarrow> None
                | Some (ok', rd'', optlen'', out') \<Rightarrow> Some (ok', rd'', optlen'', out @ out'))
             else Some (False, rd', optlen', out))
      else Some (True, rd, optlen, []))"
  by pat_completeness auto
termination
proof (relation "measure (\<lambda>(env, m, rd, optlen). unat optlen)")
  show "wf (measure (\<lambda>(env, m, rd, optlen). unat optlen))"
    by simp
next
  fix env :: libresolv and m rd optlen x ok y rd' z optlen' out
  assume ge: "4 \<le> optlen"
    and step: "edns0_option env m rd optlen = Some x"
    and x: "(ok, y) = x" "(rd', z) = y" "(optlen', out) = z"
    and ok: ok
  from step x obtain c l r1 r2 where
    c: "MY_GET16 m rd = Some (c, r1)" and l: "MY_GET16 m r1 = Some (l, r2)"
    by (auto simp: edns0_option_def split: Option.bind_splits)
  from step x ok c l have le: "l \<le> optlen - 4" and o: "optlen' = optlen - 4 - l"
    by (auto simp: edns0_option_def Let_def split: Option.bind_splits if_splits prod.splits)
  have "unat optlen' < unat optlen"
    using le o ge by unat_arith
  then show "((env, m, rd', optlen'), (env, m, rd, optlen)) \<in> measure (\<lambda>(env, m, rd, optlen). unat optlen)"
    by simp
qed

declare edns0_walk.simps [simp del]

text \<open>
  The arms of the \<open>switch (type)\<close>. Each gives the text it writes on the sink and the
  contents of \<open>buf\<close> at the end of the switch; the \<open>error\<close> label sets \<open>buf\<close> to
  \<open>rdlen_fallback\<close>. \<open>ns_msg_end(*msg) - rd\<close> is a signed pointer difference.
\<close>

definition case_soa :: "libresolv \<Rightarrow> ns_msg \<Rightarrow> ns_rr \<Rightarrow> (string \<times> string) option" where
  "case_soa env msg rr =
     (let m = ns_msg_base msg; rd = ns_rr_rdata rr in
      case ns_name_uncompress env m rd of
        None \<Rightarrow> Some ([], rdlen_fallback rr)
      | Some (mname, n) \<Rightarrow>
          let out = '','' @ mname; rd = rd + n in
          (case ns_name_uncompress env m rd of
             None \<Rightarrow> Some (out, rdlen_fallback rr)
           | Some (rname, n) \<Rightarrow>
               let out = out @ '','' @ rname; rd = rd + n in
               if int (length m) - int rd < 5 * 4 then Some (out, rdlen_fallback rr)
               else do {
                 (soa0, rd) \<leftarrow> MY_GET32 m rd;
                 (soa1, rd) \<leftarrow> MY_GET32 m rd;
                 (soa2, rd) \<leftarrow> MY_GET32 m rd;
                 (soa3, rd) \<leftarrow> MY_GET32 m rd;
                 (soa4, rd) \<leftarrow> MY_GET32 m rd;
                 Some (out, show_nat (unat soa0) @ '','' @ show_nat (unat soa1) @ '','' @
                            show_nat (unat soa2) @ '','' @ show_nat (unat soa3) @ '','' @
                            show_nat (unat soa4))
               }))"

definition case_a :: "ns_msg \<Rightarrow> ns_rr \<Rightarrow> (string \<times> string) option" where
  "case_a msg rr =
     (let m = ns_msg_base msg; rd = ns_rr_rdata rr in
      if int (length m) - int rd < 4 then Some ([], rdlen_fallback rr)
      else do { src \<leftarrow> get_bytes m rd 4; Some ([], inet_ntop4 src) })"

definition case_aaaa :: "libresolv \<Rightarrow> ns_msg \<Rightarrow> ns_rr \<Rightarrow> (string \<times> string) option" where
  "case_aaaa env msg rr =
     (let m = ns_msg_base msg; rd = ns_rr_rdata rr in
      if int (length m) - int rd < 16 then Some ([], rdlen_fallback rr)
      else do { src \<leftarrow> get_bytes m rd 16; Some ([], inet_ntop6 env src) })"

text \<open>\<open>ns_t_ns\<close>, \<open>ns_t_ptr\<close>, \<open>ns_t_cname\<close>, and the end of \<open>ns_t_mx\<close>, which falls through.\<close>

definition case_name :: "libresolv \<Rightarrow> ns_msg \<Rightarrow> ns_rr \<Rightarrow> nat \<Rightarrow> string" where
  "case_name env msg rr rd =
     (case ns_name_uncompress env (ns_msg_base msg) rd of
        None \<Rightarrow> rdlen_fallback rr
      | Some (dname, n) \<Rightarrow> dname)"

definition case_mx :: "libresolv \<Rightarrow> ns_msg \<Rightarrow> ns_rr \<Rightarrow> (string \<times> string) option" where
  "case_mx env msg rr =
     (let m = ns_msg_base msg; rd = ns_rr_rdata rr in
      if int (length m) - int rd < 2 then Some ([], rdlen_fallback rr)
      else do {
        (mx, rd) \<leftarrow> MY_GET16 m rd;
        Some ('','' @ show_nat (unat mx), case_name env msg rr rd)
      })"

definition edns0_header :: "ns_rr \<Rightarrow> string" where
  "edns0_header rr =
     (let edns0csize = unat (ns_rr_class rr);
          edns0version = (ucast (drop_bit 16 (ns_rr_ttl rr AND 0x00ff0000)) :: u_int16_t);
          edns0rcode = (ucast (drop_bit 24 (ns_rr_ttl rr AND 0xff000000)) :: u_int16_t);
          edns0dobit = (if ns_rr_ttl rr AND 0x8000 \<noteq> 0 then CHR ''1'' else CHR ''0'');
          edns0z = (ucast (ns_rr_ttl rr AND 0x7fff) :: u_char);
          optlen = ns_rr_rdlen rr
      in '',edns0[len='' @ show_nat (unat optlen) @ '',UDP='' @ show_nat edns0csize @
         '',ver='' @ show_nat (unat edns0version) @ '',rcode='' @ show_nat (unat edns0rcode) @
         '',DO='' @ [edns0dobit] @ '',z='' @ show_nat (unat edns0z) @ ''] '' @
         [CHR 0x5C, CHR 0x0A, CHR 0x09])"

definition case_opt :: "libresolv \<Rightarrow> ns_msg \<Rightarrow> ns_rr \<Rightarrow> (string \<times> string) option" where
  "case_opt env msg rr =
     do {
       (ok, rd, optlen, out) \<leftarrow> edns0_walk env (ns_msg_base msg) (ns_rr_rdata rr) (ns_rr_rdlen rr);
       Some (edns0_header rr @ out, if ok then [] else rdlen_fallback rr)
     }"

definition rr_switch :: "libresolv \<Rightarrow> ns_msg \<Rightarrow> ns_rr \<Rightarrow> (string \<times> string) option" where
  "rr_switch env msg rr =
     (let type = ns_rr_type rr in
      if type = ns_t_soa then case_soa env msg rr
      else if type = ns_t_a then case_a msg rr
      else if type = ns_t_aaaa then case_aaaa env msg rr
      else if type = ns_t_mx then case_mx env msg rr
      else if type = ns_t_ns \<or> type = ns_t_ptr \<or> type = ns_t_cname
        then Some ([], case_name env msg rr (ns_rr_rdata rr))
      else if type = ns_t_opt then case_opt env msg rr
      else Some ([], rdlen_fallback rr))"

definition dump_dns_rr :: "libresolv \<Rightarrow> ns_msg \<Rightarrow> ns_rr \<Rightarrow> ns_sect \<Rightarrow> string option" where
  "dump_dns_rr env msg rr sect =
     (let class = unat (ns_rr_class rr); type = unat (ns_rr_type rr);
          out = ns_rr_name rr @ '','' @ class_text env class type @ '','' @
                type_text env class type
      in if sect = ns_s_qd then Some out
         else do {
           let out = out @ '','' @ show_nat (unat (ns_rr_ttl rr));
           (written, buf) \<leftarrow> rr_switch env msg rr;
           Some (out @ written @ (if buf \<noteq> [] then '','' @ buf else []))
         })"

subsection \<open>\<open>dump_dns_sect\<close> and \<open>dump_dns\<close>\<close>

text \<open>
  The \<open>for\<close> loop of \<open>dump_dns_sect\<close>, from the index \<open>rrnum\<close> with the separator \<open>sep\<close>.
  A failure of \<open>ns_parserr\<close> writes the error text and ends the section.
\<close>

function dump_dns_sect_loop ::
  "libresolv \<Rightarrow> ns_msg \<Rightarrow> ns_sect \<Rightarrow> string \<Rightarrow> nat \<Rightarrow> nat \<Rightarrow> string \<Rightarrow> string option" where
  "dump_dns_sect_loop env msg sect endline rrnum rrmax sep =
     (if rrnum < rrmax then
        (case ns_parserr env msg sect rrnum of
           Inl errno \<Rightarrow> Some (strerror env errno)
         | Inr rr \<Rightarrow>
             do {
               entry \<leftarrow> dump_dns_rr env msg rr sect;
               rest \<leftarrow> dump_dns_sect_loop env msg sect endline (rrnum + 1) rrmax endline;
               Some ('' '' @ sep @ entry @ rest)
             })
      else Some [])"
  by pat_completeness auto
termination
  by (relation "measure (\<lambda>(env, msg, sect, endline, rrnum, rrmax, sep). rrmax - rrnum)") auto

declare dump_dns_sect_loop.simps [simp del]

definition dump_dns_sect :: "libresolv \<Rightarrow> ns_msg \<Rightarrow> ns_sect \<Rightarrow> string \<Rightarrow> string option" where
  "dump_dns_sect env msg sect endline =
     (let rrmax = unat (ns_msg_count msg sect) in
      if rrmax = 0 then Some '' 0''
      else do {
        body \<leftarrow> dump_dns_sect_loop env msg sect endline 0 rrmax [];
        Some ('' '' @ endline @ show_nat rrmax @ body)
      })"

text \<open>\<open>ns_msg_getflag\<close>, with the masks and shifts of \<open>_ns_flagdata\<close>.\<close>

fun ns_flagdata :: "ns_flag \<Rightarrow> u_int16_t \<times> nat" where
  "ns_flagdata ns_f_qr = (0x8000, 15)"
| "ns_flagdata ns_f_opcode = (0x7800, 11)"
| "ns_flagdata ns_f_aa = (0x0400, 10)"
| "ns_flagdata ns_f_tc = (0x0200, 9)"
| "ns_flagdata ns_f_rd = (0x0100, 8)"
| "ns_flagdata ns_f_ra = (0x0080, 7)"
| "ns_flagdata ns_f_z = (0x0040, 6)"
| "ns_flagdata ns_f_ad = (0x0020, 5)"
| "ns_flagdata ns_f_cd = (0x0010, 4)"
| "ns_flagdata ns_f_rcode = (0x000f, 0)"

definition ns_msg_getflag :: "ns_msg \<Rightarrow> ns_flag \<Rightarrow> nat" where
  "ns_msg_getflag msg f =
     (case ns_flagdata f of (fmask, fshift) \<Rightarrow> unat (drop_bit fshift (ns_msg_flags msg AND fmask)))"

definition p_opcode :: "nat \<Rightarrow> string" where
  "p_opcode opcode =
     (if opcode = 0 then ''QUERY''
      else if opcode = 1 then ''IQUERY''
      else if opcode = 2 then ''CQUERYM''
      else if opcode = 3 then ''CQUERYU''
      else if opcode = 4 then ''NOTIFY''
      else if opcode = 5 then ''UPDATE''
      else if opcode = 14 then ''ZONEINIT''
      else if opcode = 15 then ''ZONEREF''
      else ''OPCODE'' @ show_nat opcode)"

text \<open>The macro \<open>FLAG(t, f)\<close>, on the text written so far and the variable \<open>sep\<close>.\<close>

definition FLAG :: "ns_msg \<Rightarrow> string \<Rightarrow> ns_flag \<Rightarrow> string \<times> string \<Rightarrow> string \<times> string" where
  "FLAG msg t f = (\<lambda>(out, sep). if ns_msg_getflag msg f \<noteq> 0 then (out @ sep @ t, ''|'') else (out, sep))"

text \<open>What \<open>dump_dns\<close> writes between the parse and the four sections.\<close>

definition dump_dns_header :: "libresolv \<Rightarrow> ns_msg \<Rightarrow> string" where
  "dump_dns_header env msg =
     (let opcode = ns_msg_getflag msg ns_f_opcode;
          rcode = ns_msg_getflag msg ns_f_rcode;
          msgid = unat (ns_msg_id msg);
          out = p_opcode opcode @ '','' @ p_rcode env rcode @ '','' @ show_nat msgid;
          st = (out, '','');
          st = FLAG msg ''qr'' ns_f_qr st;
          st = FLAG msg ''aa'' ns_f_aa st;
          st = FLAG msg ''tc'' ns_f_tc st;
          st = FLAG msg ''rd'' ns_f_rd st;
          st = FLAG msg ''ra'' ns_f_ra st;
          st = FLAG msg ''z'' ns_f_z st;
          st = FLAG msg ''ad'' ns_f_ad st;
          st = FLAG msg ''cd'' ns_f_cd st
      in fst st)"

definition dump_dns :: "libresolv \<Rightarrow> u_char list \<Rightarrow> string \<Rightarrow> string option" where
  "dump_dns env payload endline =
     (let out = '' '' @ endline @ ''dns '' in
      case ns_initparse env payload of
        Inl errno \<Rightarrow> Some (out @ strerror env errno)
      | Inr msg \<Rightarrow>
          do {
            let out = out @ dump_dns_header env msg;
            qd \<leftarrow> dump_dns_sect env msg ns_s_qd endline;
            an \<leftarrow> dump_dns_sect env msg ns_s_an endline;
            ns \<leftarrow> dump_dns_sect env msg ns_s_ns endline;
            ar \<leftarrow> dump_dns_sect env msg ns_s_ar endline;
            Some (out @ qd @ an @ ns @ ar)
          })"

subsection \<open>\<open>hostname_from_question\<close> and \<open>get_query_domain\<close>\<close>

text \<open>
  \<open>hostname_from_question\<close> gives the text it prints on the standard output and the
  pointer it returns (\<open>None\<close> for \<open>NULL\<close>). Its \<open>for\<close> loop returns in its first pass, at
  \<open>rrnum = 0\<close>. The name is copied into \<open>static char hostname[256]\<close> with
  \<open>memcpy(hostname, result, result_len)\<close>; where \<open>result_len > sizeof(hostname)\<close> the code
  prints a message and goes on to the copy, which then writes past the array.
\<close>

definition hostname_from_question :: "libresolv \<Rightarrow> ns_msg \<Rightarrow> (string \<times> string option) option" where
  "hostname_from_question env msg =
     (let rrmax = unat (ns_msg_count msg ns_s_qd) in
      if rrmax = 0 then Some ([], None)
      else
        (case ns_parserr env msg ns_s_qd 0 of
           Inl errno \<Rightarrow> Some (''ns_parserr'' @ [CHR 0x0A], None)
         | Inr rr \<Rightarrow>
             let result = ns_rr_name rr; result_len = length result + 1 in
             if result_len > 256 then None
             else Some ([], Some result)))"

text \<open>
  \<open>get_query_domain\<close> gives the text written on \<open>trace\<close>, the text printed on the
  standard output and the pointer returned.
\<close>

definition get_query_domain ::
  "libresolv \<Rightarrow> u_char list \<Rightarrow> (string \<times> string \<times> string option) option" where
  "get_query_domain env payload =
     (case ns_initparse env payload of
        Inl errno \<Rightarrow> Some (strerror env errno, [CHR 0x0A], None)
      | Inr msg \<Rightarrow>
          do {
            (printed, host) \<leftarrow> hostname_from_question env msg;
            Some ([], printed, host)
          })"

subsection \<open>Notions of the specification\<close>

text \<open>The value of a big-endian 16-bit or 32-bit field at an offset of the buffer.\<close>

definition be16_at :: "u_char list \<Rightarrow> nat \<Rightarrow> nat" where
  "be16_at m off = 256 * unat (m ! off) + unat (m ! (off + 1))"

definition be32_at :: "u_char list \<Rightarrow> nat \<Rightarrow> nat" where
  "be32_at m off =
     16777216 * unat (m ! off) + 65536 * unat (m ! (off + 1)) +
     256 * unat (m ! (off + 2)) + unat (m ! (off + 3))"

text \<open>
  The fields every record outside the question section starts with, the name, the class
  and the type as line 191 prints them and the ttl, and the raw-length fallback of the
  specification: those fields followed by \<open>,[N]\<close> and nothing else.
\<close>

definition rr_fields :: "libresolv \<Rightarrow> ns_rr \<Rightarrow> string" where
  "rr_fields env rr =
     ns_rr_name rr @ '','' @
     class_text env (unat (ns_rr_class rr)) (unat (ns_rr_type rr)) @ '','' @
     type_text env (unat (ns_rr_class rr)) (unat (ns_rr_type rr)) @ '','' @
     show_nat (unat (ns_rr_ttl rr))"

definition fallback_record :: "libresolv \<Rightarrow> ns_rr \<Rightarrow> string" where
  "fallback_record env rr =
     rr_fields env rr @ '',['' @ show_nat (unat (ns_rr_rdlen rr)) @ '']''"

text \<open>
  \<open>after_options env m k rd optlen\<close>: the pointer, the count and the text written after \<open>k\<close>
  passes of the option loop from \<open>(rd, optlen)\<close> that all reach the end of the loop body;
  \<open>None\<close> when there are no \<open>k\<close> such passes.
\<close>

fun after_options ::
  "libresolv \<Rightarrow> u_char list \<Rightarrow> nat \<Rightarrow> nat \<Rightarrow> u_int16_t \<Rightarrow> (nat \<times> u_int16_t \<times> string) option" where
  "after_options env m 0 rd optlen = Some (rd, optlen, [])"
| "after_options env m (Suc k) rd optlen =
     (if optlen \<ge> 4 then
        (case edns0_option env m rd optlen of
           Some (True, rd', optlen', out) \<Rightarrow>
             (case after_options env m k rd' optlen' of
                None \<Rightarrow> None
              | Some (rd'', optlen'', out') \<Rightarrow> Some (rd'', optlen'', out @ out'))
         | _ \<Rightarrow> None)
      else None)"

subsection \<open>A resolver for the examples\<close>

text \<open>
  An instance of \<open>libresolv\<close> for the concrete examples below: \<open>ns_initparse\<close> reads the
  twelve bytes of the header (a shorter buffer is \<open>EMSGSIZE\<close>, 90), \<open>ns_parserr\<close> looks
  the record up in a table, \<open>ns_name_uncompress\<close> expands the root name only, the
  tables of names hold the entries \<open>IN\<close>, \<open>A\<close> and \<open>SOA\<close> and every other number is
  printed in decimal in the static buffer, \<open>p_type\<close> is called before \<open>p_class\<close>, and no
  example has an IPv6 address.
\<close>

definition example_p_class :: "nat \<Rightarrow> name_ptr" where
  "example_p_class c = (if c = 1 then Table ''IN'' else Unname (show_nat c))"

definition example_p_type :: "nat \<Rightarrow> name_ptr" where
  "example_p_type t =
     (if t = 1 then Table ''A'' else if t = 6 then Table ''SOA'' else Unname (show_nat t))"

definition example_p_rcode :: "nat \<Rightarrow> string" where
  "example_p_rcode r = (if r = 0 then ''NOERROR'' else ''RCODE'' @ show_nat r)"

definition example_strerror :: "nat \<Rightarrow> string" where
  "example_strerror e = (if e = 90 then ''Message too long'' else ''Unknown error'')"

definition example_uncompress :: "u_char list \<Rightarrow> nat \<Rightarrow> (string \<times> nat) option" where
  "example_uncompress m off = (if off < length m \<and> m ! off = 0 then Some (''.'', 1) else None)"

definition example_msg :: "u_char list \<Rightarrow> ns_msg" where
  "example_msg p =
     \<lparr> ns_msg_base = p,
       ns_msg_id = word_of_nat (be16_at p 0),
       ns_msg_flags = word_of_nat (be16_at p 2),
       ns_msg_count = (\<lambda>s. case s of
          ns_s_qd \<Rightarrow> word_of_nat (be16_at p 4)
        | ns_s_an \<Rightarrow> word_of_nat (be16_at p 6)
        | ns_s_ns \<Rightarrow> word_of_nat (be16_at p 8)
        | ns_s_ar \<Rightarrow> word_of_nat (be16_at p 10)) \<rparr>"

definition example_initparse :: "u_char list \<Rightarrow> nat + ns_msg" where
  "example_initparse p = (if length p < 12 then Inl 90 else Inr (example_msg p))"

definition example_resolv :: "(ns_sect \<Rightarrow> ns_rr list) \<Rightarrow> libresolv" where
  "example_resolv records =
     \<lparr> ns_initparse = example_initparse,
       ns_parserr = (\<lambda>msg sect rrnum.
          if rrnum < length (records sect) then Inr (records sect ! rrnum) else Inl 19),
       ns_name_uncompress = example_uncompress,
       p_class = example_p_class,
       p_type = example_p_type,
       p_type_first = True,
       p_rcode = example_p_rcode,
       strerror = example_strerror,
       inet_ntop6 = (\<lambda>src. ''::'') \<rparr>"

text \<open>
  A response with two A records for \<open>a\<close>. The first has an rdata of the two bytes 192, 0
  at offset 25 and is followed by the second record, whose rdata 192, 0, 2, 1 is at offset 40.
\<close>

definition two_a_payload :: "u_char list" where
  "two_a_payload =
     [0x12, 0x34, 0x81, 0x80, 0, 0, 0, 2, 0, 0, 0, 0,
      1, 0x61, 0, 0, 1, 0, 1, 0, 0, 0, 60, 0, 2, 192, 0,
      1, 0x61, 0, 0, 1, 0, 1, 0, 0, 0, 60, 0, 4, 192, 0, 2, 1]"

definition short_a_rr :: ns_rr where
  "short_a_rr = \<lparr> ns_rr_name = ''a'', ns_rr_type = 1, ns_rr_class = 1, ns_rr_ttl = 60,
                   ns_rr_rdlen = 2, ns_rr_rdata = 25 \<rparr>"

definition full_a_rr :: ns_rr where
  "full_a_rr = \<lparr> ns_rr_name = ''a'', ns_rr_type = 1, ns_rr_class = 1, ns_rr_ttl = 60,
                  ns_rr_rdlen = 4, ns_rr_rdata = 40 \<rparr>"

definition two_a_resolv :: libresolv where
  "two_a_resolv =
     example_resolv (\<lambda>s. case s of ns_s_an \<Rightarrow> [short_a_rr, full_a_rr] | _ \<Rightarrow> [])"

text \<open>
  A response with one SOA record: at offset 25 its rdata has two root names and the five
  fields 1, 7200, 900, 1209600, 86400.
\<close>

definition soa_payload :: "u_char list" where
  "soa_payload =
     [0x12, 0x34, 0x81, 0x80, 0, 0, 0, 1, 0, 0, 0, 0,
      1, 0x61, 0, 0, 6, 0, 1, 0, 0, 0, 60, 0, 22,
      0, 0, 0, 0, 0, 1, 0, 0, 0x1c, 0x20, 0, 0, 3, 0x84, 0, 0x12, 0x75, 0, 0, 1, 0x51, 0x80]"

definition soa_rr :: ns_rr where
  "soa_rr = \<lparr> ns_rr_name = ''a'', ns_rr_type = 6, ns_rr_class = 1, ns_rr_ttl = 60,
               ns_rr_rdlen = 22, ns_rr_rdata = 25 \<rparr>"

text \<open>
  A response with an SOA record whose rdata is the two root names and nothing more (two
  bytes at offset 25), followed by two A records of 17 bytes each.
\<close>

definition short_soa_payload :: "u_char list" where
  "short_soa_payload =
     [0x12, 0x34, 0x81, 0x80, 0, 0, 0, 3, 0, 0, 0, 0,
      1, 0x61, 0, 0, 6, 0, 1, 0, 0, 0, 60, 0, 2, 0, 0,
      1, 0x61, 0, 0, 1, 0, 1, 0, 0, 0, 60, 0, 4, 192, 0, 2, 1,
      1, 0x61, 0, 0, 1, 0, 1, 0, 0, 0, 60, 0, 4, 192, 0, 2, 2]"

definition short_soa_rr :: ns_rr where
  "short_soa_rr = \<lparr> ns_rr_name = ''a'', ns_rr_type = 6, ns_rr_class = 1, ns_rr_ttl = 60,
                     ns_rr_rdlen = 2, ns_rr_rdata = 25 \<rparr>"

text \<open>
  A query for the root name with the class 512 and the type 41, neither of which has a name
  in the tables of the library.
\<close>

definition unnamed_question_payload :: "u_char list" where
  "unnamed_question_payload =
     [0x12, 0x34, 0x01, 0x00, 0, 1, 0, 0, 0, 0, 0, 0, 0, 0, 41, 2, 0]"

definition unnamed_question_rr :: ns_rr where
  "unnamed_question_rr = \<lparr> ns_rr_name = ''.'', ns_rr_type = 41, ns_rr_class = 512,
                            ns_rr_ttl = 0, ns_rr_rdlen = 0, ns_rr_rdata = 17 \<rparr>"

text \<open>
  Messages whose additional section is one OPT record of the root name, with the UDP size
  4096 and its rdata at offset 23: a client-subnet option alone (family 1, source mask 24,
  scope mask 0, address 192, 0, 2, 0), that option followed by an option of code 10,
  the same with a second option that declares 9 bytes where 8 remain, and a client-subnet
  option of declared length 2. The ttl bytes are 0, 0, 0x80, 0 (the DO bit). \<open>opt_rr rdlen\<close>
  is the record as parsed, with the owner name \<open>.\<close>.
\<close>

definition opt_rr :: "u_int16_t \<Rightarrow> ns_rr" where
  "opt_rr rdlen = \<lparr> ns_rr_name = ''.'', ns_rr_type = 41, ns_rr_class = 4096, ns_rr_ttl = 0x8000,
                      ns_rr_rdlen = rdlen, ns_rr_rdata = 23 \<rparr>"

definition opt_header_bytes :: "u_char \<Rightarrow> u_char list" where
  "opt_header_bytes rdlen =
     [0x12, 0x34, 0x01, 0x00, 0, 0, 0, 0, 0, 0, 0, 1,
      0, 0, 41, 0x10, 0, 0, 0, 0x80, 0, 0, rdlen]"

definition subnet_payload :: "u_char list" where
  "subnet_payload = opt_header_bytes 12 @ [0, 8, 0, 8, 0, 1, 24, 0, 192, 0, 2, 0]"


definition subnet_overrun_payload :: "u_char list" where
  "subnet_overrun_payload =
     opt_header_bytes 24 @
     [0, 8, 0, 8, 0, 1, 24, 0, 192, 0, 2, 0,
      0, 10, 0, 9, 1, 2, 3, 4, 5, 6, 7, 8]"

definition short_subnet_payload :: "u_char list" where
  "short_subnet_payload = opt_header_bytes 6 @ [0, 8, 0, 2, 0, 1]"

text \<open>
  A query for a name of two labels of 63 bytes 1 each. In the presentation form that
  \<open>ns_parserr\<close> stores in the record every such byte is the four characters \<open>\001\<close>, so the
  name has 505 characters.
\<close>

definition escaped_label :: string where
  "escaped_label = concat (replicate 63 [CHR 0x5C, CHR ''0'', CHR ''0'', CHR ''1''])"

definition long_name_rr :: ns_rr where
  "long_name_rr = \<lparr> ns_rr_name = escaped_label @ ''.'' @ escaped_label, ns_rr_type = 1,
                     ns_rr_class = 1, ns_rr_ttl = 0, ns_rr_rdlen = 0, ns_rr_rdata = 145 \<rparr>"

definition long_name_payload :: "u_char list" where
  "long_name_payload =
     [0x12, 0x34, 0x01, 0x00, 0, 1, 0, 0, 0, 0, 0, 0] @
     [63] @ replicate 63 1 @ [63] @ replicate 63 1 @ [0, 0, 1, 0, 1]"

definition long_name_resolv :: libresolv where
  "long_name_resolv =
     example_resolv (\<lambda>s. case s of ns_s_qd \<Rightarrow> [long_name_rr] | _ \<Rightarrow> [])"

section \<open>Properties\<close>

subsection \<open>Auxiliary facts\<close>

lemmas example_defs = example_resolv_def example_msg_def example_p_class_def example_p_type_def
  example_p_rcode_def example_strerror_def example_uncompress_def example_initparse_def
  class_text_def type_text_def unname_after_def

lemma ns_t_distinct:
  "ns_t_a \<noteq> ns_t_soa" "ns_t_aaaa \<noteq> ns_t_soa" "ns_t_aaaa \<noteq> ns_t_a"
  "ns_t_mx \<noteq> ns_t_soa" "ns_t_mx \<noteq> ns_t_a" "ns_t_mx \<noteq> ns_t_aaaa"
  "ns_t_opt \<noteq> ns_t_soa" "ns_t_opt \<noteq> ns_t_a" "ns_t_opt \<noteq> ns_t_aaaa" "ns_t_opt \<noteq> ns_t_mx"
  "ns_t_opt \<noteq> ns_t_ns" "ns_t_opt \<noteq> ns_t_ptr" "ns_t_opt \<noteq> ns_t_cname"
  by (simp_all add: ns_t_a_def ns_t_soa_def ns_t_aaaa_def ns_t_mx_def ns_t_opt_def ns_t_ns_def
      ns_t_ptr_def ns_t_cname_def)

lemma unat_byte_less: "unat (a :: 8 word) < 256"
  using unsigned_less [of a, where ?'a = nat] by simp

lemma unat_push_byte32: "k \<le> 24 \<Longrightarrow> unat (push_bit k (ucast (a :: 8 word)) :: 32 word) = 2 ^ k * unat a"
proof -
  assume k: "k \<le> 24"
  have "2 ^ k * unat a < 2 ^ k * 2 ^ 8" using unat_byte_less [of a] by simp
  also have "\<dots> = (2::nat) ^ (k + 8)" by (simp add: power_add)
  also have "\<dots> \<le> 2 ^ 32" using k by (intro power_increasing) auto
  finally have lt: "2 ^ k * unat a < 2 ^ 32" .
  have u: "unat (ucast a :: 32 word) = unat a"
    using unat_byte_less [of a] by (simp add: unsigned_ucast_eq take_bit_nat_eq_self)
  have "unat (push_bit k (ucast a) :: 32 word) = take_bit 32 (push_bit k (unat (ucast a :: 32 word)))"
    by (simp add: unsigned_push_bit_eq)
  also have "\<dots> = 2 ^ k * unat a"
    using lt by (simp add: u push_bit_eq_mult take_bit_nat_eq_self mult.commute)
  finally show ?thesis .
qed

lemma unat_add_small32:
  "unat x + unat y < 4294967296 \<Longrightarrow> unat (x + y :: 32 word) = unat x + unat y"
  using unat_add_lem [of x y] by simp

lemma be32w: "(push_bit 24 (ucast (a::8 word)) OR push_bit 16 (ucast (b::8 word)) OR push_bit 8 (ucast (c::8 word)) OR ucast (d::8 word) :: 32 word)
    = push_bit 24 (ucast a) + (push_bit 16 (ucast b) + (push_bit 8 (ucast c) + ucast d))"
proof -
  have 1: "push_bit 8 (ucast c) + ucast d = (push_bit 8 (ucast c) OR ucast d :: 32 word)"
    by (rule disjunctive_add) (auto simp: bit_simps dest: bit_imp_le_length)
  have 2: "push_bit 16 (ucast b) + (push_bit 8 (ucast c) OR ucast d) = (push_bit 16 (ucast b) OR (push_bit 8 (ucast c) OR ucast d) :: 32 word)"
    by (rule disjunctive_add) (auto simp: bit_simps dest: bit_imp_le_length)
  have 3: "push_bit 24 (ucast a) + (push_bit 16 (ucast b) OR (push_bit 8 (ucast c) OR ucast d)) = (push_bit 24 (ucast a) OR (push_bit 16 (ucast b) OR (push_bit 8 (ucast c) OR ucast d)) :: 32 word)"
    by (rule disjunctive_add) (auto simp: bit_simps dest: bit_imp_le_length)
  show ?thesis by (simp only: 1 2 3 or.assoc)
qed

lemma be32: "unat (push_bit 24 (ucast (a::8 word)) OR push_bit 16 (ucast (b::8 word)) OR push_bit 8 (ucast (c::8 word)) OR ucast (d::8 word) :: 32 word)
    = 16777216 * unat a + 65536 * unat b + 256 * unat c + unat d"
proof -
  have ua: "unat (push_bit 24 (ucast a) :: 32 word) = 16777216 * unat a"
    using unat_push_byte32 [of 24 a] by simp
  have ub: "unat (push_bit 16 (ucast b) :: 32 word) = 65536 * unat b"
    using unat_push_byte32 [of 16 b] by simp
  have uc: "unat (push_bit 8 (ucast c) :: 32 word) = 256 * unat c"
    using unat_push_byte32 [of 8 c] by simp
  have ud: "unat (ucast d :: 32 word) = unat d"
    using unat_push_byte32 [of 0 d] by simp
  note bs = unat_byte_less [of a] unat_byte_less [of b] unat_byte_less [of c] unat_byte_less [of d]
  have s1: "unat (push_bit 8 (ucast c) + ucast d :: 32 word) = 256 * unat c + unat d"
    using bs unat_add_small32 [of "push_bit 8 (ucast c)" "ucast d"] by (simp add: uc ud)
  have s2: "unat (push_bit 16 (ucast b) + (push_bit 8 (ucast c) + ucast d) :: 32 word) = 65536 * unat b + (256 * unat c + unat d)"
    using bs unat_add_small32 [of "push_bit 16 (ucast b)" "push_bit 8 (ucast c) + ucast d"]
    by (simp add: ub s1)
  have s3: "unat (push_bit 24 (ucast a) + (push_bit 16 (ucast b) + (push_bit 8 (ucast c) + ucast d)) :: 32 word) = 16777216 * unat a + (65536 * unat b + (256 * unat c + unat d))"
    using bs unat_add_small32 [of "push_bit 24 (ucast a)" "push_bit 16 (ucast b) + (push_bit 8 (ucast c) + ucast d)"]
    by (simp add: ua s2)
  show ?thesis by (simp only: be32w s3 add.assoc)
qed

lemma unat_push_byte16: "k \<le> 8 \<Longrightarrow> unat (push_bit k (ucast (a :: 8 word)) :: 16 word) = 2 ^ k * unat a"
proof -
  assume k: "k \<le> 8"
  have "2 ^ k * unat a < 2 ^ k * 2 ^ 8" using unat_byte_less [of a] by simp
  also have "\<dots> = (2::nat) ^ (k + 8)" by (simp add: power_add)
  also have "\<dots> \<le> 2 ^ 16" using k by (intro power_increasing) auto
  finally have lt: "2 ^ k * unat a < 2 ^ 16" .
  have u: "unat (ucast a :: 16 word) = unat a"
    using unat_byte_less [of a] by (simp add: unsigned_ucast_eq take_bit_nat_eq_self)
  have "unat (push_bit k (ucast a) :: 16 word) = take_bit 16 (push_bit k (unat (ucast a :: 16 word)))"
    by (simp add: unsigned_push_bit_eq)
  also have "\<dots> = 2 ^ k * unat a"
    using lt by (simp add: u push_bit_eq_mult take_bit_nat_eq_self mult.commute)
  finally show ?thesis .
qed

lemma be16w: "(push_bit 8 (ucast (a::8 word)) OR ucast (b::8 word) :: 16 word) = push_bit 8 (ucast a) + ucast b"
  by (rule disjunctive_add [symmetric]) (auto simp: bit_simps dest: bit_imp_le_length)

lemma be16: "unat (push_bit 8 (ucast (a::8 word)) OR ucast (b::8 word) :: 16 word) = 256 * unat a + unat b"
proof -
  have ua: "unat (push_bit 8 (ucast a) :: 16 word) = 256 * unat a"
    using unat_push_byte16 [of 8 a] by simp
  have ub: "unat (ucast b :: 16 word) = unat b"
    using unat_push_byte16 [of 0 b] by simp
  have "unat (push_bit 8 (ucast a) :: 16 word) + unat (ucast b :: 16 word) < 2 ^ LENGTH(16)"
    using unat_byte_less [of a] unat_byte_less [of b] by (simp add: ua ub)
  then have "unat (push_bit 8 (ucast a) + ucast b :: 16 word) = unat (push_bit 8 (ucast a) :: 16 word) + unat (ucast b :: 16 word)"
    by (simp only: unat_add_lem)
  then show ?thesis
    by (simp only: be16w ua ub)
qed

lemma mask_lo: "(0xff :: 16 word) = mask 8"
  by (simp add: mask_eq_exp_minus_1)

lemma mask_hi: "(0xff00 :: 16 word) = push_bit 8 (mask 8)"
  by (simp add: mask_eq_exp_minus_1)

lemma hi_byte: "drop_bit 8 ((push_bit 8 (ucast (a::8 word)) OR ucast (b::8 word) :: 16 word) AND 0xff00) = ucast a"
  unfolding mask_hi
  by (rule bit_word_eqI) (auto simp: bit_simps dest: bit_imp_le_length)

lemma lo_byte: "((push_bit 8 (ucast (a::8 word)) OR ucast (b::8 word) :: 16 word) AND 0xff) = ucast b"
  unfolding mask_lo
  by (rule bit_word_eqI) (auto simp: bit_simps dest: bit_imp_le_length)

lemma MY_GET16_be16_at:
  assumes "cp + 2 \<le> length m"
  obtains v where "MY_GET16 m cp = Some (v, cp + 2)" and "unat v = be16_at m cp"
  using assms by (simp add: MY_GET16_def be16_at_def be16)

lemma unat_ucast_byte16: "unat (ucast (a :: 8 word) :: 16 word) = unat a"
  using unat_push_byte16 [of 0 a] by simp

lemma MY_GET16_masks:
  assumes "MY_GET16 m cp = Some (v, cp')"
  shows "unat (drop_bit 8 (v AND 0xff00)) = unat (m ! cp)"
    and "unat (v AND 0xff) = unat (m ! (cp + 1))"
proof -
  from assms have v: "v = push_bit 8 (ucast (m ! cp)) OR ucast (m ! (cp + 1))"
    by (auto simp: MY_GET16_def split: if_splits)
  show "unat (drop_bit 8 (v AND 0xff00)) = unat (m ! cp)"
    unfolding v by (simp only: hi_byte unat_ucast_byte16)
  show "unat (v AND 0xff) = unat (m ! (cp + 1))"
    unfolding v by (simp only: lo_byte unat_ucast_byte16)
qed

lemma MY_GET16_Some:
  "MY_GET16 m cp = Some (v, cp') \<Longrightarrow> cp' = cp + 2 \<and> cp + 2 \<le> length m \<and> unat v = be16_at m cp"
  by (auto simp: MY_GET16_def be16_at_def be16 split: if_splits)

lemma unat_sub4: "4 \<le> (optlen :: 16 word) \<Longrightarrow> unat (optlen - 4) = unat optlen - 4"
  by unat_arith

lemma MY_GET32_be32_at:
  assumes "cp + 4 \<le> length m"
  obtains v where "MY_GET32 m cp = Some (v, cp + 4)" and "unat v = be32_at m cp"
  using assms by (simp add: MY_GET32_def be32_at_def be32)

lemma ns_t_soa_distinct: "ns_t_soa \<noteq> ns_t_a"
  by (simp add: ns_t_a_def ns_t_soa_def)

lemma soa_fields:
  assumes "rd + 20 \<le> length m"
  shows "do {
           (soa0, rd) \<leftarrow> MY_GET32 m rd;
           (soa1, rd) \<leftarrow> MY_GET32 m rd;
           (soa2, rd) \<leftarrow> MY_GET32 m rd;
           (soa3, rd) \<leftarrow> MY_GET32 m rd;
           (soa4, rd) \<leftarrow> MY_GET32 m rd;
           Some (out, show_nat (unat soa0) @ '','' @ show_nat (unat soa1) @ '','' @
                      show_nat (unat soa2) @ '','' @ show_nat (unat soa3) @ '','' @
                      show_nat (unat soa4))
         } =
         Some (out, show_nat (be32_at m rd) @ '','' @ show_nat (be32_at m (rd + 4)) @ '','' @
                    show_nat (be32_at m (rd + 8)) @ '','' @ show_nat (be32_at m (rd + 12)) @ '','' @
                    show_nat (be32_at m (rd + 16)))"
proof -
  obtain v0 where v0: "MY_GET32 m rd = Some (v0, rd + 4)" "unat v0 = be32_at m rd"
    using assms by (auto intro: MY_GET32_be32_at [of rd m])
  obtain v1 where v1: "MY_GET32 m (rd + 4) = Some (v1, rd + 8)" "unat v1 = be32_at m (rd + 4)"
    using assms by (auto intro: MY_GET32_be32_at [of "rd + 4" m])
  obtain v2 where v2: "MY_GET32 m (rd + 8) = Some (v2, rd + 12)" "unat v2 = be32_at m (rd + 8)"
    using assms by (auto intro: MY_GET32_be32_at [of "rd + 8" m])
  obtain v3 where v3: "MY_GET32 m (rd + 12) = Some (v3, rd + 16)" "unat v3 = be32_at m (rd + 12)"
    using assms by (auto intro: MY_GET32_be32_at [of "rd + 12" m])
  obtain v4 where v4: "MY_GET32 m (rd + 16) = Some (v4, rd + 20)" "unat v4 = be32_at m (rd + 16)"
    using assms by (auto intro: MY_GET32_be32_at [of "rd + 16" m])
  show ?thesis
    by (simp add: v0 v1 v2 v3 v4)
qed

subsection \<open>Records of the question section\<close>

text \<open>
  For a record of the question section \<open>dump_dns_rr\<close> writes three fields and stops: the
  name and what the two \<open>%s\<close> of line 191 read through the pointers of \<open>p_class\<close> and
  \<open>p_type\<close>; no ttl and nothing of the rdata. When the class or the type has a name in the
  tables, the two fields are the texts of \<open>p_class\<close> and \<open>p_type\<close>. When neither has, both
  pointers are the one static buffer, and both fields show the number that the later call
  printed there.
\<close>

lemma question_record_three_fields:
  "dump_dns_rr env msg rr ns_s_qd =
     Some (ns_rr_name rr @ '','' @
           class_text env (unat (ns_rr_class rr)) (unat (ns_rr_type rr)) @ '','' @
           type_text env (unat (ns_rr_class rr)) (unat (ns_rr_type rr)))"
  by (simp add: dump_dns_rr_def Let_def)

lemma class_type_text_named:
  "p_class env c = Table cn \<Longrightarrow> class_text env c t = cn"
  "p_type env t = Table tn \<Longrightarrow> type_text env c t = tn"
  "p_class env c = Unname cs \<Longrightarrow> p_type env t = Table tn \<Longrightarrow> class_text env c t = cs"
  "p_class env c = Table cn \<Longrightarrow> p_type env t = Unname ts \<Longrightarrow> type_text env c t = ts"
  by (simp_all add: class_text_def type_text_def unname_after_def)

lemma class_type_text_unnamed:
  assumes "p_class env c = Unname cs" and "p_type env t = Unname ts"
  shows "class_text env c t = (if p_type_first env then cs else ts)"
    and "type_text env c t = (if p_type_first env then cs else ts)"
  using assms by (simp_all add: class_text_def type_text_def unname_after_def)

lemma question_record_named:
  assumes "p_class env (unat (ns_rr_class rr)) = Table cn \<or>
           p_type env (unat (ns_rr_type rr)) = Table tn"
  shows "dump_dns_rr env msg rr ns_s_qd =
     Some (ns_rr_name rr @ '','' @
           (case p_class env (unat (ns_rr_class rr)) of Table s \<Rightarrow> s | Unname s \<Rightarrow> s) @ '','' @
           (case p_type env (unat (ns_rr_type rr)) of Table s \<Rightarrow> s | Unname s \<Rightarrow> s))"
  using assms
  by (auto simp: dump_dns_rr_def Let_def class_text_def type_text_def unname_after_def
      split: name_ptr.splits)

lemma rr_fields_named:
  assumes "p_class env (unat (ns_rr_class rr)) = Table cn \<or>
           p_type env (unat (ns_rr_type rr)) = Table tn"
  shows "rr_fields env rr =
     ns_rr_name rr @ '','' @
     (case p_class env (unat (ns_rr_class rr)) of Table s \<Rightarrow> s | Unname s \<Rightarrow> s) @ '','' @
     (case p_type env (unat (ns_rr_type rr)) of Table s \<Rightarrow> s | Unname s \<Rightarrow> s) @ '','' @
     show_nat (unat (ns_rr_ttl rr))"
  using assms
  by (auto simp: rr_fields_def class_text_def type_text_def unname_after_def
      split: name_ptr.splits)

text \<open>
  C8. The output for a question record is to be exactly \<open>name,class_name,type_name\<close>,
  whatever the type. For the question below, of the class 512 and the type 41, \<open>p_class\<close>
  prints \<open>512\<close> and \<open>p_type\<close> prints \<open>41\<close>, both in the static buffer, and the code writes
  \<open>.,512,512\<close>: the type field shows the class. No ttl and no rdata follow.
\<close>

theorem question_record_unnamed:
  "ns_msg_count (example_msg unnamed_question_payload) ns_s_qd = 1 \<and>
   be16_at unnamed_question_payload 13 = unat (ns_rr_type unnamed_question_rr) \<and>
   be16_at unnamed_question_payload 15 = unat (ns_rr_class unnamed_question_rr) \<and>
   p_class (example_resolv (\<lambda>s. [])) (unat (ns_rr_class unnamed_question_rr)) = Unname ''512'' \<and>
   p_type (example_resolv (\<lambda>s. [])) (unat (ns_rr_type unnamed_question_rr)) = Unname ''41'' \<and>
   dump_dns_rr (example_resolv (\<lambda>s. [])) (example_msg unnamed_question_payload)
       unnamed_question_rr ns_s_qd = Some ''.,512,512'' \<and>
   dump_dns_rr (example_resolv (\<lambda>s. [])) (example_msg unnamed_question_payload)
       unnamed_question_rr ns_s_qd \<noteq> Some ''.,512,41''"
  by (simp add: dump_dns_rr_def Let_def unnamed_question_rr_def unnamed_question_payload_def
      example_defs be16_at_def show_nat.simps digit_char_def)

subsection \<open>A message that does not parse\<close>

text \<open>
  C5. For every buffer on which \<open>ns_initparse\<close> fails, \<open>dump_dns\<close> writes the prefix
  \<open>" <endline>dns "\<close> and then the error description of the system, and nothing else: no
  header summary and no section follows.
\<close>

theorem dump_dns_parse_failure:
  assumes "ns_initparse env payload = Inl errno"
  shows "dump_dns env payload endline = Some ('' '' @ endline @ ''dns '' @ strerror env errno)"
  using assms by (simp add: dump_dns_def)

theorem dump_dns_parse_failure_witness:
  "ns_initparse (example_resolv (\<lambda>s. [])) [0x12, 0x34, 0x01, 0x00, 0x00] = Inl 90 \<and>
   dump_dns (example_resolv (\<lambda>s. [])) [0x12, 0x34, 0x01, 0x00, 0x00] ''; '' =
     Some '' ; dns Message too long''"
proof -
  have h: "ns_initparse (example_resolv (\<lambda>s. [])) [0x12, 0x34, 0x01, 0x00, 0x00] = Inl 90"
    by (simp add: example_resolv_def example_initparse_def)
  show ?thesis
    using h dump_dns_parse_failure [OF h, of "''; ''"]
    by (simp add: example_resolv_def example_strerror_def)
qed

subsection \<open>A records\<close>

text \<open>
  C7, as the code has it. For every A record outside the question section: when at least
  four bytes lie between the start of the rdata and the end of the message (which is so
  whenever the rdata has four bytes), the rdata field is the dotted-decimal text of the four
  bytes at the start of the rdata; when fewer than four bytes remain before the end of the
  message, the record is the raw-length fallback \<open>name,class,type,ttl,[N]\<close>. The guard of
  the code measures up to the end of the message, not up to the end of the rdata.
\<close>

theorem a_record_rdata:
  assumes "ns_rr_type rr = ns_t_a" and "sect \<noteq> ns_s_qd"
  shows "dump_dns_rr env msg rr sect =
     (let m = ns_msg_base msg; rd = ns_rr_rdata rr in
      if rd + 4 \<le> length m
      then Some (rr_fields env rr @ '','' @
                 show_nat (unat (m ! rd)) @ ''.'' @ show_nat (unat (m ! (rd + 1))) @ ''.'' @
                 show_nat (unat (m ! (rd + 2))) @ ''.'' @ show_nat (unat (m ! (rd + 3))))
      else Some (fallback_record env rr))"
  using assms
  by (simp add: dump_dns_rr_def rr_switch_def case_a_def get_bytes_def inet_ntop4_def
      rdlen_fallback_def rr_fields_def fallback_record_def Let_def ns_t_distinct)

text \<open>The rdata 192, 0, 2, 1 renders as \<open>192.0.2.1\<close>.\<close>

theorem a_record_rdata_witness:
  "ns_rr_type full_a_rr = ns_t_a \<and> ns_s_an \<noteq> ns_s_qd \<and>
   dump_dns_rr two_a_resolv (example_msg two_a_payload) full_a_rr ns_s_an =
     Some ''a,IN,A,60,192.0.2.1''"
  using a_record_rdata [of full_a_rr ns_s_an two_a_resolv "example_msg two_a_payload"]
  by (simp add: full_a_rr_def ns_t_a_def two_a_payload_def two_a_resolv_def rr_fields_def
      example_defs show_nat.simps digit_char_def)

text \<open>
  C7 as the specification states it fails: an A record whose rdata has two bytes, and which
  another record follows in the message, is not rendered as the fallback \<open>[2]\<close>; the two
  bytes after its rdata are printed as the end of an address.
\<close>

theorem a_record_short_rdata_counterexample:
  "ns_rr_type short_a_rr = ns_t_a \<and> unat (ns_rr_rdlen short_a_rr) < 4 \<and>
   ns_rr_rdata short_a_rr + unat (ns_rr_rdlen short_a_rr) \<le> length two_a_payload \<and>
   fallback_record two_a_resolv short_a_rr = ''a,IN,A,60,[2]'' \<and>
   dump_dns_rr two_a_resolv (example_msg two_a_payload) short_a_rr ns_s_an =
     Some ''a,IN,A,60,192.0.1.97'' \<and>
   dump_dns_rr two_a_resolv (example_msg two_a_payload) short_a_rr ns_s_an \<noteq>
     Some (fallback_record two_a_resolv short_a_rr)"
  by (simp add: dump_dns_rr_def rr_switch_def case_a_def get_bytes_def inet_ntop4_def
      rdlen_fallback_def rr_fields_def fallback_record_def Let_def ns_t_distinct
      short_a_rr_def ns_t_a_def ns_t_soa_def two_a_payload_def two_a_resolv_def
      example_defs show_nat.simps digit_char_def)

subsection \<open>SOA records\<close>

text \<open>
  C3, as the code has it. For every SOA record outside the question section whose two
  leading names decompress: when at least 20 bytes lie between the end of the second name
  and the end of the message, the five big-endian 32-bit fields that start there (serial,
  refresh, retry, expire, minimum) follow \<open>,mname,rname\<close> in that order; when fewer than 20
  bytes remain before the end of the message, \<open>,[N]\<close> follows \<open>,mname,rname\<close> instead. The
  guard of the code measures up to the end of the message, not up to the end of the rdata.
\<close>

theorem soa_record_rdata:
  assumes type: "ns_rr_type rr = ns_t_soa" and sect: "sect \<noteq> ns_s_qd"
    and mname: "ns_name_uncompress env (ns_msg_base msg) (ns_rr_rdata rr) = Some (mname, n)"
    and rname: "ns_name_uncompress env (ns_msg_base msg) (ns_rr_rdata rr + n) = Some (rname, n')"
  shows "dump_dns_rr env msg rr sect =
     (let m = ns_msg_base msg; rd = ns_rr_rdata rr + n + n' in
      Some (rr_fields env rr @ '','' @ mname @ '','' @ rname @ '','' @
        (if rd + 20 \<le> length m
         then show_nat (be32_at m rd) @ '','' @ show_nat (be32_at m (rd + 4)) @ '','' @
              show_nat (be32_at m (rd + 8)) @ '','' @ show_nat (be32_at m (rd + 12)) @ '','' @
              show_nat (be32_at m (rd + 16))
         else ''['' @ show_nat (unat (ns_rr_rdlen rr)) @ '']'')))"
proof (cases "ns_rr_rdata rr + n + n' + 20 \<le> length (ns_msg_base msg)")
  case True
  let ?m = "ns_msg_base msg"
  let ?rd = "ns_rr_rdata rr + n + n'"
  have guard: "\<not> int (length ?m) - int ?rd < 5 * 4"
    using True by simp
  have soa: "case_soa env msg rr =
      Some ('','' @ mname @ '','' @ rname,
            show_nat (be32_at ?m ?rd) @ '','' @ show_nat (be32_at ?m (?rd + 4)) @ '','' @
            show_nat (be32_at ?m (?rd + 8)) @ '','' @ show_nat (be32_at ?m (?rd + 12)) @ '','' @
            show_nat (be32_at ?m (?rd + 16)))"
    unfolding case_soa_def Let_def mname rname option.case prod.case if_not_P [OF guard]
    by (simp only: soa_fields [OF True] append_assoc)
  show ?thesis
    using type sect True soa
    by (simp add: dump_dns_rr_def rr_switch_def Let_def rr_fields_def)
next
  case False
  then have soa: "case_soa env msg rr = Some ('','' @ mname @ '','' @ rname, rdlen_fallback rr)"
    using mname rname by (simp add: case_soa_def Let_def) 
  show ?thesis
    using type sect False soa
    by (simp add: dump_dns_rr_def rr_switch_def Let_def rr_fields_def rdlen_fallback_def)
qed

theorem soa_record_rdata_witness:
  "ns_rr_type soa_rr = ns_t_soa \<and> ns_s_an \<noteq> ns_s_qd \<and>
   ns_name_uncompress (example_resolv (\<lambda>s. [])) (ns_msg_base (example_msg soa_payload))
     (ns_rr_rdata soa_rr) = Some (''.'', 1) \<and>
   ns_name_uncompress (example_resolv (\<lambda>s. [])) (ns_msg_base (example_msg soa_payload))
     (ns_rr_rdata soa_rr + 1) = Some (''.'', 1) \<and>
   dump_dns_rr (example_resolv (\<lambda>s. [])) (example_msg soa_payload) soa_rr ns_s_an =
     Some ''a,IN,SOA,60,.,.,1,7200,900,1209600,86400''"
proof -
  have t: "ns_rr_type soa_rr = ns_t_soa" and s: "ns_s_an \<noteq> ns_s_qd"
    by (simp_all add: soa_rr_def ns_t_soa_def)
  have m: "ns_name_uncompress (example_resolv (\<lambda>s. [])) (ns_msg_base (example_msg soa_payload))
     (ns_rr_rdata soa_rr) = Some (''.'', 1)"
    by (simp add: example_defs soa_payload_def soa_rr_def)
  have r: "ns_name_uncompress (example_resolv (\<lambda>s. [])) (ns_msg_base (example_msg soa_payload))
     (ns_rr_rdata soa_rr + 1) = Some (''.'', 1)"
    by (simp add: example_defs soa_payload_def soa_rr_def)
  have "dump_dns_rr (example_resolv (\<lambda>s. [])) (example_msg soa_payload) soa_rr ns_s_an =
     Some ''a,IN,SOA,60,.,.,1,7200,900,1209600,86400''"
    using soa_record_rdata [OF t s m r]
    by (simp add: example_defs soa_payload_def soa_rr_def rr_fields_def be32_at_def
        show_nat.simps digit_char_def)
  with t s m r show ?thesis
    by (intro conjI)
qed

text \<open>
  C3 as the specification states it fails: an SOA record whose rdata ends with its two
  names, and which 34 bytes of other records follow in the message, is not rendered with
  the fallback \<open>[2]\<close>; the first 20 bytes of the records after it are printed as its five
  fields.
\<close>

theorem soa_record_short_rdata_counterexample:
  "ns_rr_type short_soa_rr = ns_t_soa \<and>
   ns_name_uncompress (example_resolv (\<lambda>s. [])) short_soa_payload (ns_rr_rdata short_soa_rr) =
     Some (''.'', 1) \<and>
   ns_name_uncompress (example_resolv (\<lambda>s. [])) short_soa_payload (ns_rr_rdata short_soa_rr + 1) =
     Some (''.'', 1) \<and>
   unat (ns_rr_rdlen short_soa_rr) - (1 + 1) < 20 \<and>
   dump_dns_rr (example_resolv (\<lambda>s. [])) (example_msg short_soa_payload) short_soa_rr ns_s_an =
     Some ''a,IN,SOA,60,.,.,23134208,16777472,15360,79691778,16867584'' \<and>
   dump_dns_rr (example_resolv (\<lambda>s. [])) (example_msg short_soa_payload) short_soa_rr ns_s_an \<noteq>
     Some (rr_fields (example_resolv (\<lambda>s. [])) short_soa_rr @ '',.,.,[2]'')"
  by (simp add: dump_dns_rr_def rr_switch_def case_soa_def MY_GET32_def
      rdlen_fallback_def rr_fields_def Let_def
      short_soa_rr_def ns_t_soa_def short_soa_payload_def
      example_defs show_nat.simps digit_char_def)

subsection \<open>The option loop of OPT records\<close>

text \<open>What one pass of the loop body does, by the bytes of the option.\<close>

lemma edns0_option_overrun:
  assumes hdr: "rd + 4 \<le> length m" and ge: "4 \<le> optlen"
    and over: "unat optlen - 4 < be16_at m (rd + 2)"
  shows "edns0_option env m rd optlen =
     Some (False, rd + 4, optlen - 4,
           ''edns0[code='' @ show_nat (be16_at m rd) @ '',codelen='' @
           show_nat (be16_at m (rd + 2)) @ ''] '')"
proof -
  obtain c where c: "MY_GET16 m rd = Some (c, rd + 2)" "unat c = be16_at m rd"
    using hdr by (auto intro: MY_GET16_be16_at [of rd m])
  obtain l where l: "MY_GET16 m (rd + 2) = Some (l, rd + 4)" "unat l = be16_at m (rd + 2)"
    using hdr by (auto intro: MY_GET16_be16_at [of "rd + 2" m])
  have "optlen - 4 < l"
    using over ge l(2) by (simp add: word_less_nat_alt unat_sub4)
  then show ?thesis
    using c l by (simp add: edns0_option_def)
qed

lemma edns0_option_short_subnet:
  assumes hdr: "rd + 4 \<le> length m" and ge: "4 \<le> optlen"
    and code: "be16_at m rd = 8"
    and short: "be16_at m (rd + 2) < 4"
    and fit: "be16_at m (rd + 2) \<le> unat optlen - 4"
  shows "edns0_option env m rd optlen =
     Some (False, rd + 4, optlen - 4 - word_of_nat (be16_at m (rd + 2)),
           ''edns0[code=8,codelen='' @ show_nat (be16_at m (rd + 2)) @ ''] '')"
proof -
  obtain c where c: "MY_GET16 m rd = Some (c, rd + 2)" "unat c = be16_at m rd"
    using hdr by (auto intro: MY_GET16_be16_at [of rd m])
  obtain l where l: "MY_GET16 m (rd + 2) = Some (l, rd + 4)" "unat l = be16_at m (rd + 2)"
    using hdr by (auto intro: MY_GET16_be16_at [of "rd + 2" m])
  have c8: "c = 8"
    using c(2) code by (simp add: word_unat_eq_iff)
  have fits: "\<not> optlen - 4 < l"
    using fit ge l(2) by (simp add: word_less_nat_alt unat_sub4)
  have lt: "l < 4"
    using short l(2) by (simp add: word_less_nat_alt)
  have lw: "word_of_nat (be16_at m (rd + 2)) = l"
    using l(2) [symmetric] by simp
  have eight: "show_nat 8 = ''8''"
    by (simp add: show_nat.simps digit_char_def)
  show ?thesis
    using c(1) l fits lt c8 lw eight by (simp add: edns0_option_def)
qed

lemma edns0_option_client_subnet:
  assumes ge: "4 \<le> optlen"
    and code: "be16_at m rd = 8"
    and len: "len = be16_at m (rd + 2)"
    and long: "4 \<le> len"
    and fit: "len \<le> unat optlen - 4"
    and inside: "rd + 4 + len \<le> length m"
  shows "edns0_option env m rd optlen =
     Some (True, rd + 4 + len, optlen - 4 - word_of_nat len,
           ''edns0[code=8,codelen='' @ show_nat len @ ''] '' @
           (let afi = be16_at m (rd + 4);
                addr = take 16 (take (min (len - 4) 16) (drop (rd + 8) m) @ replicate 16 0)
            in (if afi = 1 \<or> afi = 2 then [] else ''unknown AFI '' @ show_nat afi @ [CHR 0x0A]) @
               ''edns0_client_subnet='' @
               (if afi = 1 then inet_ntop4 addr
                else if afi = 2 then inet_ntop6 env addr
                else ''<unknown>'') @
               ''/'' @ show_nat (unat (m ! (rd + 6))) @
               '' (scope '' @ show_nat (unat (m ! (rd + 7))) @ '')''))"
proof -
  obtain c where c: "MY_GET16 m rd = Some (c, rd + 2)" "unat c = be16_at m rd"
    using inside by (auto intro: MY_GET16_be16_at [of rd m])
  obtain l where l: "MY_GET16 m (rd + 2) = Some (l, rd + 4)" "unat l = be16_at m (rd + 2)"
    using inside by (auto intro: MY_GET16_be16_at [of "rd + 2" m])
  obtain afi where afi: "MY_GET16 m (rd + 4) = Some (afi, rd + 6)" "unat afi = be16_at m (rd + 4)"
    using inside long by (auto intro: MY_GET16_be16_at [of "rd + 4" m])
  obtain masks where masks: "MY_GET16 m (rd + 6) = Some (masks, rd + 8)"
    using inside long by (auto intro: MY_GET16_be16_at [of "rd + 6" m])
  note mk = MY_GET16_masks [OF masks]
  have e: "rd + 6 + 1 = rd + 7"
    by simp
  have mk2: "unat (masks AND 0xff) = unat (m ! (rd + 7))"
    using mk(2) unfolding e .
  have c8: "c = 8"
    using c(2) code by (simp add: word_unat_eq_iff)
  have fits: "\<not> optlen - 4 < l"
    using fit ge l(2) len by (simp add: word_less_nat_alt unat_sub4)
  have ge4: "\<not> l < 4"
    using long l(2) len by (simp add: word_less_nat_alt)
  have l4: "unat (l - 4) = len - 4"
    using long l(2) len unat_sub4 [of l] ge4 by (simp add: word_le_nat_alt not_less)
  have lw: "word_of_nat len = l"
    using l(2) [symmetric] len by simp
  have bytes: "get_bytes m (rd + 8) (min (len - 4) 16) = Some (take (min (len - 4) 16) (drop (rd + 8) m))"
    using inside long by (simp add: get_bytes_def)
  have a1: "afi = 1 \<longleftrightarrow> be16_at m (rd + 4) = 1"
    using afi(2) by (simp add: word_unat_eq_iff)
  have a2: "afi = 2 \<longleftrightarrow> be16_at m (rd + 4) = 2"
    using afi(2) by (simp add: word_unat_eq_iff)
  have eight: "show_nat 8 = ''8''"
    by (simp add: show_nat.simps digit_char_def)
  show ?thesis
    using c(1) l afi masks fits ge4 bytes long c8 lw eight l4 mk(1) mk2 a1 a2 len
    by (simp add: edns0_option_def Let_def)
qed




lemma edns0_option_advance:
  assumes step: "edns0_option env m rd optlen = Some (True, rd', optlen', out)"
    and ge: "4 \<le> optlen"
  shows "rd + 4 \<le> length m"
    and "rd' = rd + 4 + be16_at m (rd + 2)"
    and "unat optlen' + (4 + be16_at m (rd + 2)) = unat optlen"
proof -
  from step obtain c l r1 r2 where
    c: "MY_GET16 m rd = Some (c, r1)" and l: "MY_GET16 m r1 = Some (l, r2)"
    by (auto simp: edns0_option_def split: Option.bind_splits)
  from MY_GET16_Some [OF c] have r1: "r1 = rd + 2"
    by simp
  from MY_GET16_Some [OF l] r1 have r2: "r2 = rd + 4" "rd + 4 \<le> length m"
    and lv: "unat l = be16_at m (rd + 2)"
    by simp_all
  from step c l have le: "l \<le> optlen - 4" and o: "optlen' = optlen - 4 - l"
    by (auto simp: edns0_option_def Let_def split: Option.bind_splits if_splits prod.splits)
  show "rd + 4 \<le> length m"
    by (rule r2(2))
  have "unat optlen' + (4 + unat l) = unat optlen"
    using le o ge by unat_arith
  then show "unat optlen' + (4 + be16_at m (rd + 2)) = unat optlen"
    by (simp add: lv)
  show "rd' = rd + 4 + be16_at m (rd + 2)"
  proof (cases "c = 8")
    case False
    with step c l r1 r2 lv show ?thesis
      by (auto simp: edns0_option_def Let_def split: Option.bind_splits if_splits prod.splits)
  next
    case True
    from step c l True have ge4: "\<not> l < 4"
      by (auto simp: edns0_option_def Let_def split: Option.bind_splits if_splits prod.splits)
    then have l4: "unat (l - 4) = unat l - 4" and l4': "4 \<le> unat l"
      using unat_sub4 [of l] by (simp_all add: not_less word_le_nat_alt)
    from step c l True ge4 obtain a r3 k r4 where
      a: "MY_GET16 m r2 = Some (a, r3)" and k: "MY_GET16 m r3 = Some (k, r4)"
      and rd': "rd' = r4 + unat (l - 4)"
      by (auto simp: edns0_option_def Let_def split: Option.bind_splits if_splits prod.splits)
    from MY_GET16_Some [OF a] MY_GET16_Some [OF k] r2 have "r4 = rd + 8"
      by simp
    with rd' l4 l4' lv show ?thesis
      by simp
  qed
qed


text \<open>Passes that reach the end of the body, and the loop after them.\<close>

lemma after_options_invariant:
  "after_options env m k rd0 optlen0 = Some (rd, optlen, pre) \<Longrightarrow>
   rd + unat optlen = rd0 + unat optlen0"
proof (induction k arbitrary: rd0 optlen0 pre)
  case 0
  then show ?case by simp
next
  case (Suc k)
  from Suc.prems obtain rd1 optlen1 out rest where
    ge: "4 \<le> optlen0"
    and step: "edns0_option env m rd0 optlen0 = Some (True, rd1, optlen1, out)"
    and more: "after_options env m k rd1 optlen1 = Some (rd, optlen, rest)"
    by (auto split: if_splits option.splits prod.splits bool.splits)
  from edns0_option_advance [OF step ge] have "rd1 + unat optlen1 = rd0 + unat optlen0"
    by simp
  with Suc.IH [OF more] show ?case
    by simp
qed

lemma option_header_inside:
  assumes passed: "after_options env m k rd0 optlen0 = Some (rd, optlen, pre)"
    and ge: "4 \<le> optlen"
    and inside: "rd0 + unat optlen0 \<le> length m"
  shows "rd + 4 \<le> length m"
proof -
  from ge have "4 \<le> unat optlen"
    by (simp add: word_le_nat_alt)
  with after_options_invariant [OF passed] inside show ?thesis
    by simp
qed

lemma after_options_Suc:
  "after_options env m k rd0 optlen0 = Some (rd, optlen, pre) \<Longrightarrow> 4 \<le> optlen \<Longrightarrow>
   edns0_option env m rd optlen = Some (True, rd1, optlen1, out) \<Longrightarrow>
   after_options env m (Suc k) rd0 optlen0 = Some (rd1, optlen1, pre @ out)"
proof (induction k arbitrary: rd0 optlen0 pre)
  case 0
  then show ?case by simp
next
  case (Suc k)
  from Suc.prems(1) obtain ra la outa rest where
    ge: "4 \<le> optlen0"
    and step: "edns0_option env m rd0 optlen0 = Some (True, ra, la, outa)"
    and more: "after_options env m k ra la = Some (rd, optlen, rest)"
    and pre: "pre = outa @ rest"
    by (auto split: if_splits option.splits prod.splits bool.splits)
  from Suc.IH [OF more Suc.prems(2,3)]
  have "after_options env m (Suc k) ra la = Some (rd1, optlen1, rest @ out)" .
  with ge step pre show ?case
    by (subst after_options.simps) simp
qed

lemma edns0_walk_after_options:
  "after_options env m k rd0 optlen0 = Some (rd, optlen, pre) \<Longrightarrow>
   edns0_walk env m rd optlen = Some (ok, rd', optlen', out) \<Longrightarrow>
   edns0_walk env m rd0 optlen0 = Some (ok, rd', optlen', pre @ out)"
proof (induction k arbitrary: rd0 optlen0 pre)
  case 0
  then show ?case by simp
next
  case (Suc k)
  from Suc.prems(1) obtain rd1 optlen1 out1 rest where
    ge: "4 \<le> optlen0"
    and step: "edns0_option env m rd0 optlen0 = Some (True, rd1, optlen1, out1)"
    and more: "after_options env m k rd1 optlen1 = Some (rd, optlen, rest)"
    and pre: "pre = out1 @ rest"
    by (auto split: if_splits option.splits prod.splits bool.splits)
  from Suc.IH [OF more Suc.prems(2)]
  have "edns0_walk env m rd1 optlen1 = Some (ok, rd', optlen', rest @ out)" .
  with ge step pre show ?case
    by (subst edns0_walk.simps) simp
qed

lemma edns0_walk_abort:
  assumes "4 \<le> optlen" and "edns0_option env m rd optlen = Some (False, rd', optlen', out)"
  shows "edns0_walk env m rd optlen = Some (False, rd', optlen', out)"
  using assms by (subst edns0_walk.simps) simp


lemma dump_dns_rr_opt:
  assumes "ns_rr_type rr = ns_t_opt" and "sect \<noteq> ns_s_qd"
    and "edns0_walk env (ns_msg_base msg) (ns_rr_rdata rr) (ns_rr_rdlen rr) = Some (ok, rd', optlen', out)"
  shows "dump_dns_rr env msg rr sect =
     Some (rr_fields env rr @ edns0_header rr @ out @
           (if ok then [] else '',['' @ show_nat (unat (ns_rr_rdlen rr)) @ '']''))"
  using assms
  by (simp add: dump_dns_rr_def rr_switch_def case_opt_def rr_fields_def rdlen_fallback_def
      ns_t_distinct Let_def)

subsection \<open>Reads stay inside the message\<close>

text \<open>
  When the rdata of every record that \<open>ns_parserr\<close> returns lies in the message, no read of
  \<open>dump_dns\<close> leaves the buffer: the result is never \<open>None\<close>, so the sections of a parsed
  message always have a body.
\<close>

lemma edns0_option_defined:
  assumes ge: "4 \<le> optlen" and inside: "rd + unat optlen \<le> length m"
  shows "edns0_option env m rd optlen \<noteq> None"
proof -
  from ge have ge': "4 \<le> unat optlen"
    by (simp add: word_le_nat_alt)
  with inside have hdr: "rd + 4 \<le> length m"
    by simp
  obtain c where c: "MY_GET16 m rd = Some (c, rd + 2)"
    using hdr by (auto intro: MY_GET16_be16_at [of rd m])
  obtain l where l: "MY_GET16 m (rd + 2) = Some (l, rd + 4)"
    using hdr by (auto intro: MY_GET16_be16_at [of "rd + 2" m])
  show ?thesis
  proof (cases "l > optlen - 4 \<or> c \<noteq> 8 \<or> l < 4")
    case True
    then show ?thesis
      using c l by (auto simp: edns0_option_def Let_def)
  next
    case False
    then have fit: "unat l \<le> unat optlen - 4" and long: "4 \<le> unat l"
      using ge by (simp_all add: not_less word_le_nat_alt unat_sub4)
    have l4: "unat (l - 4) = unat l - 4"
      using long unat_sub4 [of l] by (simp add: word_le_nat_alt)
    obtain a where a: "MY_GET16 m (rd + 4) = Some (a, rd + 6)"
      using inside fit long ge' by (auto intro: MY_GET16_be16_at [of "rd + 4" m])
    obtain k where k: "MY_GET16 m (rd + 6) = Some (k, rd + 8)"
      using inside fit long ge' by (auto intro: MY_GET16_be16_at [of "rd + 6" m])
    have b: "rd + 8 + min (unat l - 4) 16 \<le> length m"
      using inside fit long ge' by simp
    show ?thesis
      using False c l a k b l4
      by (auto simp: edns0_option_def Let_def get_bytes_def split: prod.splits)
  qed
qed

lemma edns0_walk_defined:
  "rd + unat optlen \<le> length m \<Longrightarrow> edns0_walk env m rd optlen \<noteq> None"
proof (induction env m rd optlen rule: edns0_walk.induct)
  case (1 env m rd optlen)
  show ?case
  proof (cases "4 \<le> optlen")
    case False
    then show ?thesis
      by (subst edns0_walk.simps) simp
  next
    case True
    from edns0_option_defined [OF True "1.prems"] obtain ok rd' optlen' out where
      step: "edns0_option env m rd optlen = Some (ok, rd', optlen', out)"
      by (metis not_None_eq prod_cases4)
    show ?thesis
    proof (cases ok)
      case False
      with True step show ?thesis
        by (subst edns0_walk.simps) simp
    next
      case ok: True
      from step ok have step': "edns0_option env m rd optlen = Some (True, rd', optlen', out)"
        by simp
      from edns0_option_advance [OF step' True] "1.prems"
      have "rd' + unat optlen' \<le> length m"
        by simp
      from "1.IH" [OF True step refl refl refl ok this]
      have "edns0_walk env m rd' optlen' \<noteq> None" .
      with True step ok show ?thesis
        by (subst edns0_walk.simps) (auto split: prod.splits)
    qed
  qed
qed

lemma dump_dns_rr_defined:
  assumes "ns_rr_rdata rr + unat (ns_rr_rdlen rr) \<le> length (ns_msg_base msg)"
  shows "dump_dns_rr env msg rr sect \<noteq> None"
proof -
  have soa: "case_soa env msg rr \<noteq> None"
  proof (cases "ns_name_uncompress env (ns_msg_base msg) (ns_rr_rdata rr)")
    case None
    then show ?thesis by (simp add: case_soa_def)
  next
    case (Some a)
    obtain mname n where a: "a = (mname, n)" by (cases a)
    show ?thesis
    proof (cases "ns_name_uncompress env (ns_msg_base msg) (ns_rr_rdata rr + n)")
      case None
      with Some a show ?thesis by (simp add: case_soa_def)
    next
      case (Some b)
      obtain rname n' where b: "b = (rname, n')" by (cases b)
      show ?thesis
      proof (cases "ns_rr_rdata rr + n + n' + 20 \<le> length (ns_msg_base msg)")
        case True
        then have guard: "\<not> int (length (ns_msg_base msg)) - int (ns_rr_rdata rr + n + n') < 5 * 4"
          by simp
        show ?thesis
          unfolding case_soa_def Let_def \<open>ns_name_uncompress env (ns_msg_base msg) (ns_rr_rdata rr) = Some a\<close>
            a Some b option.case prod.case if_not_P [OF guard]
          by (simp only: soa_fields [OF True]) simp
      next
        case False
        with \<open>ns_name_uncompress env (ns_msg_base msg) (ns_rr_rdata rr) = Some a\<close> a Some b
        show ?thesis by (simp add: case_soa_def)
      qed
    qed
  qed
  have a: "case_a msg rr \<noteq> None"
    by (simp add: case_a_def get_bytes_def Let_def)
  have aaaa: "case_aaaa env msg rr \<noteq> None"
    by (simp add: case_aaaa_def get_bytes_def Let_def)
  have mx: "case_mx env msg rr \<noteq> None"
    by (simp add: case_mx_def MY_GET16_def Let_def)
  have opt: "case_opt env msg rr \<noteq> None"
    using edns0_walk_defined [OF assms, of env]
    by (auto simp: case_opt_def split: prod.splits)
  from soa a aaaa mx opt have "rr_switch env msg rr \<noteq> None"
    by (simp add: rr_switch_def Let_def del: not_None_eq)
  then show ?thesis
    by (auto simp: dump_dns_rr_def Let_def split: prod.splits)
qed


lemma dump_dns_sect_loop_defined:
  assumes inside: "\<And>i rr. ns_parserr env msg sect i = Inr rr \<Longrightarrow>
     ns_rr_rdata rr + unat (ns_rr_rdlen rr) \<le> length (ns_msg_base msg)"
  shows "dump_dns_sect_loop env msg sect endline rrnum rrmax sep \<noteq> None"
  using inside
proof (induction env msg sect endline rrnum rrmax sep rule: dump_dns_sect_loop.induct)
  case (1 env msg sect endline rrnum rrmax sep)
  show ?case
  proof (cases "rrnum < rrmax")
    case False
    then show ?thesis
      by (subst dump_dns_sect_loop.simps) simp
  next
    case True
    show ?thesis
    proof (cases "ns_parserr env msg sect rrnum")
      case (Inl errno)
      with True show ?thesis
        by (subst dump_dns_sect_loop.simps) simp
    next
      case (Inr rr)
      from dump_dns_rr_defined [OF "1.prems" [OF Inr]] obtain entry where
        entry: "dump_dns_rr env msg rr sect = Some entry"
        by blast
      from "1.IH" [OF True Inr entry "1.prems"]
      have "dump_dns_sect_loop env msg sect endline (rrnum + 1) rrmax endline \<noteq> None"
        by simp
      with True Inr entry show ?thesis
        by (subst dump_dns_sect_loop.simps) auto
    qed
  qed
qed

lemma dump_dns_sect_defined:
  assumes "\<And>i rr. ns_parserr env msg sect i = Inr rr \<Longrightarrow>
     ns_rr_rdata rr + unat (ns_rr_rdlen rr) \<le> length (ns_msg_base msg)"
  shows "dump_dns_sect env msg sect endline \<noteq> None"
proof -
  have "dump_dns_sect_loop env msg sect endline 0 (unat (ns_msg_count msg sect)) [] \<noteq> None"
    by (rule dump_dns_sect_loop_defined) (rule assms)
  then show ?thesis
    by (auto simp: dump_dns_sect_def Let_def)
qed

lemma dump_dns_defined:
  assumes "\<And>msg sect i rr. ns_initparse env payload = Inr msg \<Longrightarrow>
     ns_parserr env msg sect i = Inr rr \<Longrightarrow>
     ns_rr_rdata rr + unat (ns_rr_rdlen rr) \<le> length (ns_msg_base msg)"
  shows "dump_dns env payload endline \<noteq> None"
proof (cases "ns_initparse env payload")
  case (Inl errno)
  then show ?thesis
    by (simp add: dump_dns_def)
next
  case (Inr msg)
  have "dump_dns_sect env msg sect endline \<noteq> None" for sect
    by (rule dump_dns_sect_defined) (rule assms [OF Inr])
  from this [of ns_s_qd] this [of ns_s_an] this [of ns_s_ns] this [of ns_s_ar] Inr
  show ?thesis
    by (auto simp: dump_dns_def)
qed

subsection \<open>Options inside an OPT record\<close>

text \<open>
  In the theorems of this subsection \<open>after_options ... k ... = Some (rd, optlen, pre)\<close> says
  that the walk of the rdata of the record has passed \<open>k\<close> options, has written \<open>pre\<close> for
  them and stands at \<open>rd\<close> with the count \<open>optlen\<close>; \<open>k = 0\<close> is the first option.
\<close>

text \<open>
  C4. For every OPT record outside the question section whose rdata lies in the message, and
  every client-subnet option (code 8) in it whose declared length \<open>len\<close> is at least 4 and
  fits in the count that remains: the record is the record fields, the \<open>edns0[len=...]\<close>
  header, the text of the options before, \<open>edns0[code=8,codelen=len] \<close>, then
  \<open>edns0_client_subnet=addr/source_mask (scope scope_mask)\<close>, then what the walk writes
  from \<open>4 + len\<close> bytes after the start of the option. The family is read at \<open>rd + 4\<close>, the
  source mask at \<open>rd + 6\<close>, the scope mask at \<open>rd + 7\<close>; the \<open>min (len - 4) 16\<close> address
  bytes at \<open>rd + 8\<close> are padded with zeros to 16 bytes and rendered as IPv4 text for the
  family 1, as IPv6 text for the family 2, and as \<open><unknown>\<close> after the warning
  \<open>unknown AFI n\<close> for any other family.
\<close>

theorem client_subnet_option:
  assumes type: "ns_rr_type rr = ns_t_opt" and sect: "sect \<noteq> ns_s_qd"
    and inside: "ns_rr_rdata rr + unat (ns_rr_rdlen rr) \<le> length (ns_msg_base msg)"
    and passed: "after_options env (ns_msg_base msg) k (ns_rr_rdata rr) (ns_rr_rdlen rr) =
                   Some (rd, optlen, pre)"
    and ge: "4 \<le> optlen"
    and code: "be16_at (ns_msg_base msg) rd = 8"
    and len: "len = be16_at (ns_msg_base msg) (rd + 2)"
    and long: "4 \<le> len"
    and fit: "len \<le> unat optlen - 4"
  shows "\<exists>ok rd' optlen' rest.
     edns0_walk env (ns_msg_base msg) (rd + 4 + len) (optlen - 4 - word_of_nat len) =
       Some (ok, rd', optlen', rest) \<and>
     dump_dns_rr env msg rr sect =
       Some (rr_fields env rr @ edns0_header rr @ pre @
             ''edns0[code=8,codelen='' @ show_nat len @ ''] '' @
             (let m = ns_msg_base msg;
                  afi = be16_at m (rd + 4);
                  addr = take 16 (take (min (len - 4) 16) (drop (rd + 8) m) @ replicate 16 0)
              in (if afi = 1 \<or> afi = 2 then [] else ''unknown AFI '' @ show_nat afi @ [CHR 0x0A]) @
                 ''edns0_client_subnet='' @
                 (if afi = 1 then inet_ntop4 addr
                  else if afi = 2 then inet_ntop6 env addr
                  else ''<unknown>'') @
                 ''/'' @ show_nat (unat (m ! (rd + 6))) @
                 '' (scope '' @ show_nat (unat (m ! (rd + 7))) @ '')'') @
             rest @
             (if ok then [] else '',['' @ show_nat (unat (ns_rr_rdlen rr)) @ '']''))"
proof -
  let ?m = "ns_msg_base msg"
  from ge have ge': "4 \<le> unat optlen"
    by (simp add: word_le_nat_alt)
  note inv = after_options_invariant [OF passed]
  have ins: "rd + 4 + len \<le> length ?m"
    using inv inside fit ge' by simp
  note step = edns0_option_client_subnet [OF ge code len long fit ins, of env]
  note adv = edns0_option_advance [OF step ge]
  have "rd + 4 + len + unat (optlen - 4 - word_of_nat len) \<le> length ?m"
    using adv(3) inv inside len by simp
  from edns0_walk_defined [OF this, of env] obtain ok rd' optlen' rest where
    rest: "edns0_walk env ?m (rd + 4 + len) (optlen - 4 - word_of_nat len) =
             Some (ok, rd', optlen', rest)"
    by (metis not_None_eq prod_cases4)
  note walk = edns0_walk_after_options [OF after_options_Suc [OF passed ge step] rest]
  from dump_dns_rr_opt [OF type sect walk] rest show ?thesis
    by (intro exI [of _ ok] exI [of _ rd'] exI [of _ optlen'] exI [of _ rest])
       (simp add: Let_def)
qed

text \<open>
  An OPT record with the one option of family 1, source mask 24, scope mask 0 and the
  address bytes 192, 0, 2, 0 renders \<open>edns0_client_subnet=192.0.2.0/24 (scope 0)\<close>.
\<close>

theorem client_subnet_option_witness:
  "ns_rr_type (opt_rr 12) = ns_t_opt \<and> ns_s_ar \<noteq> ns_s_qd \<and>
   ns_rr_rdata (opt_rr 12) + unat (ns_rr_rdlen (opt_rr 12)) \<le>
     length (ns_msg_base (example_msg subnet_payload)) \<and>
   after_options (example_resolv (\<lambda>s. [])) (ns_msg_base (example_msg subnet_payload)) 0
     (ns_rr_rdata (opt_rr 12)) (ns_rr_rdlen (opt_rr 12)) = Some (23, 12, []) \<and>
   (4 :: u_int16_t) \<le> 12 \<and>
   be16_at (ns_msg_base (example_msg subnet_payload)) 23 = 8 \<and>
   8 = be16_at (ns_msg_base (example_msg subnet_payload)) (23 + 2) \<and>
   (4 :: nat) \<le> 8 \<and> 8 \<le> unat (12 :: u_int16_t) - 4 \<and>
   dump_dns_rr (example_resolv (\<lambda>s. [])) (example_msg subnet_payload) (opt_rr 12) ns_s_ar =
     Some (''.,4096,4096,32768,edns0[len=12,UDP=4096,ver=0,rcode=0,DO=1,z=0] '' @
           [CHR 0x5C, CHR 0x0A, CHR 0x09] @
           ''edns0[code=8,codelen=8] edns0_client_subnet=192.0.2.0/24 (scope 0)'')"
proof -
  let ?env = "example_resolv (\<lambda>s. [])"
  let ?m = "ns_msg_base (example_msg subnet_payload)"
  have t: "ns_rr_type (opt_rr 12) = ns_t_opt" and s: "ns_s_ar \<noteq> ns_s_qd"
    by (simp_all add: opt_rr_def ns_t_opt_def)
  have i: "ns_rr_rdata (opt_rr 12) + unat (ns_rr_rdlen (opt_rr 12)) \<le> length ?m"
    by (simp add: opt_rr_def opt_header_bytes_def subnet_payload_def example_msg_def)
  have p: "after_options ?env ?m 0 (ns_rr_rdata (opt_rr 12)) (ns_rr_rdlen (opt_rr 12)) =
      Some (23, 12, [])"
    by (simp add: opt_rr_def)
  have g: "(4 :: u_int16_t) \<le> 12"
    by simp
  have c: "be16_at ?m 23 = 8"
    by (simp add: opt_header_bytes_def subnet_payload_def example_msg_def be16_at_def)
  have l: "8 = be16_at ?m (23 + 2)"
    by (simp add: opt_header_bytes_def subnet_payload_def example_msg_def be16_at_def)
  have o: "(4 :: nat) \<le> 8" and f: "8 \<le> unat (12 :: u_int16_t) - 4"
    by simp_all
  from client_subnet_option [OF t s i p g c l o f] obtain ok rd' optlen' rest where
    w: "edns0_walk ?env ?m (23 + 4 + 8) (12 - 4 - word_of_nat 8) = Some (ok, rd', optlen', rest)"
    and d: "dump_dns_rr ?env (example_msg subnet_payload) (opt_rr 12) ns_s_ar =
       Some (rr_fields ?env (opt_rr 12) @ edns0_header (opt_rr 12) @ [] @
             ''edns0[code=8,codelen='' @ show_nat 8 @ ''] '' @
             (let m = ?m;
                  afi = be16_at m (23 + 4);
                  addr = take 16 (take (min (8 - 4) 16) (drop (23 + 8) m) @ replicate 16 0)
              in (if afi = 1 \<or> afi = 2 then [] else ''unknown AFI '' @ show_nat afi @ [CHR 0x0A]) @
                 ''edns0_client_subnet='' @
                 (if afi = 1 then inet_ntop4 addr
                  else if afi = 2 then inet_ntop6 ?env addr
                  else ''<unknown>'') @
                 ''/'' @ show_nat (unat (m ! (23 + 6))) @
                 '' (scope '' @ show_nat (unat (m ! (23 + 7))) @ '')'') @
             rest @
             (if ok then [] else '',['' @ show_nat (unat (ns_rr_rdlen (opt_rr 12))) @ '']''))"
    by blast
  have e: "edns0_walk ?env ?m (23 + 4 + 8) (12 - 4 - word_of_nat 8) = Some (True, 35, 0, [])"
    by (subst edns0_walk.simps) simp
  from w e have r: "ok = True" "rest = []"
    by simp_all
  have "dump_dns_rr ?env (example_msg subnet_payload) (opt_rr 12) ns_s_ar =
     Some (''.,4096,4096,32768,edns0[len=12,UDP=4096,ver=0,rcode=0,DO=1,z=0] '' @
           [CHR 0x5C, CHR 0x0A, CHR 0x09] @
           ''edns0[code=8,codelen=8] edns0_client_subnet=192.0.2.0/24 (scope 0)'')"
    using d unfolding r
    by (simp add: opt_rr_def opt_header_bytes_def subnet_payload_def example_defs rr_fields_def
        edns0_header_def be16_at_def inet_ntop4_def show_nat.simps digit_char_def)
  with t s i p g c l o f show ?thesis
    by (intro conjI)
qed



text \<open>
  C1, as the code has it. For every OPT record outside the question section whose rdata lies
  in the message: when, after \<open>k\<close> options have been walked, the declared length of the
  next option exceeds the count that remains after its code and length, the walk stops and
  \<open>,[N]\<close> is written, \<open>N\<close> being the length of the whole rdata. What was written before
  stays: the record fields, the \<open>edns0[len=...]\<close> header, what was written for the \<open>k\<close>
  options before, and \<open>edns0[code=c,codelen=l] \<close> of the option at fault. No later option
  is decoded.
\<close>

theorem opt_option_overrun:
  assumes type: "ns_rr_type rr = ns_t_opt" and sect: "sect \<noteq> ns_s_qd"
    and inside: "ns_rr_rdata rr + unat (ns_rr_rdlen rr) \<le> length (ns_msg_base msg)"
    and passed: "after_options env (ns_msg_base msg) k (ns_rr_rdata rr) (ns_rr_rdlen rr) =
                   Some (rd, optlen, pre)"
    and ge: "4 \<le> optlen"
    and over: "unat optlen - 4 < be16_at (ns_msg_base msg) (rd + 2)"
  shows "dump_dns_rr env msg rr sect =
     Some (rr_fields env rr @ edns0_header rr @ pre @
           ''edns0[code='' @ show_nat (be16_at (ns_msg_base msg) rd) @ '',codelen='' @
           show_nat (be16_at (ns_msg_base msg) (rd + 2)) @ ''] '' @
           '',['' @ show_nat (unat (ns_rr_rdlen rr)) @ '']'')"
proof -
  have hdr: "rd + 4 \<le> length (ns_msg_base msg)"
    by (rule option_header_inside [OF passed ge inside])
  note walk = edns0_walk_after_options [OF passed
      edns0_walk_abort [OF ge edns0_option_overrun [OF hdr ge over]]]
  show ?thesis
    using dump_dns_rr_opt [OF type sect walk] by simp
qed

theorem opt_option_overrun_witness:
  "ns_rr_type (opt_rr 24) = ns_t_opt \<and> ns_s_ar \<noteq> ns_s_qd \<and>
   ns_rr_rdata (opt_rr 24) + unat (ns_rr_rdlen (opt_rr 24)) \<le>
     length (ns_msg_base (example_msg subnet_overrun_payload)) \<and>
   after_options (example_resolv (\<lambda>s. [])) (ns_msg_base (example_msg subnet_overrun_payload)) 1
     (ns_rr_rdata (opt_rr 24)) (ns_rr_rdlen (opt_rr 24)) =
     Some (35, 12, ''edns0[code=8,codelen=8] edns0_client_subnet=192.0.2.0/24 (scope 0)'') \<and>
   (4 :: u_int16_t) \<le> 12 \<and>
   unat (12 :: u_int16_t) - 4 < be16_at (ns_msg_base (example_msg subnet_overrun_payload)) (35 + 2) \<and>
   dump_dns_rr (example_resolv (\<lambda>s. [])) (example_msg subnet_overrun_payload)
       (opt_rr 24) ns_s_ar =
     Some (''.,4096,4096,32768,edns0[len=24,UDP=4096,ver=0,rcode=0,DO=1,z=0] '' @
           [CHR 0x5C, CHR 0x0A, CHR 0x09] @
           ''edns0[code=8,codelen=8] edns0_client_subnet=192.0.2.0/24 (scope 0)'' @
           ''edns0[code=10,codelen=9] ,[24]'')"
proof -
  have t: "ns_rr_type (opt_rr 24) = ns_t_opt" and s: "ns_s_ar \<noteq> ns_s_qd"
    by (simp_all add: opt_rr_def ns_t_opt_def)
  have i: "ns_rr_rdata (opt_rr 24) + unat (ns_rr_rdlen (opt_rr 24)) \<le>
     length (ns_msg_base (example_msg subnet_overrun_payload))"
    by (simp add: opt_rr_def opt_header_bytes_def subnet_overrun_payload_def example_msg_def)
  have p: "after_options (example_resolv (\<lambda>s. [])) (ns_msg_base (example_msg subnet_overrun_payload)) 1
     (ns_rr_rdata (opt_rr 24)) (ns_rr_rdlen (opt_rr 24)) =
     Some (35, 12, ''edns0[code=8,codelen=8] edns0_client_subnet=192.0.2.0/24 (scope 0)'')"
    by (simp add: opt_rr_def opt_header_bytes_def subnet_overrun_payload_def example_msg_def edns0_option_def MY_GET16_def get_bytes_def
        inet_ntop4_def show_nat.simps digit_char_def)
  have g: "(4 :: u_int16_t) \<le> 12"
    by simp
  have v: "unat (12 :: u_int16_t) - 4 < be16_at (ns_msg_base (example_msg subnet_overrun_payload)) (35 + 2)"
    by (simp add: opt_rr_def opt_header_bytes_def subnet_overrun_payload_def example_msg_def be16_at_def)
  have "dump_dns_rr (example_resolv (\<lambda>s. [])) (example_msg subnet_overrun_payload)
       (opt_rr 24) ns_s_ar =
     Some (''.,4096,4096,32768,edns0[len=24,UDP=4096,ver=0,rcode=0,DO=1,z=0] '' @
           [CHR 0x5C, CHR 0x0A, CHR 0x09] @
           ''edns0[code=8,codelen=8] edns0_client_subnet=192.0.2.0/24 (scope 0)'' @
           ''edns0[code=10,codelen=9] ,[24]'')"
    using opt_option_overrun [OF t s i p g v]
    by (simp add: opt_rr_def opt_header_bytes_def subnet_overrun_payload_def example_defs
        rr_fields_def edns0_header_def be16_at_def show_nat.simps digit_char_def)
  with t s i p g v show ?thesis
    by (intro conjI)
qed

text \<open>
  C1 as the specification states it fails: the record below, whose second option declares 9
  bytes where 8 remain, is not rendered as the fallback \<open>.,4096,4096,32768,[24]\<close> alone;
  the header, the whole first option and the code and length of the second are written
  before \<open>,[24]\<close>.
\<close>

theorem opt_option_overrun_counterexample:
  "ns_rr_type (opt_rr 24) = ns_t_opt \<and>
   after_options (example_resolv (\<lambda>s. [])) subnet_overrun_payload 1 23 24 =
     Some (35, 12, ''edns0[code=8,codelen=8] edns0_client_subnet=192.0.2.0/24 (scope 0)'') \<and>
   be16_at subnet_overrun_payload (35 + 2) = 9 \<and> unat (12 :: u_int16_t) - 4 = 8 \<and>
   fallback_record (example_resolv (\<lambda>s. [])) (opt_rr 24) = ''.,4096,4096,32768,[24]'' \<and>
   dump_dns_rr (example_resolv (\<lambda>s. [])) (example_msg subnet_overrun_payload)
       (opt_rr 24) ns_s_ar =
     Some (''.,4096,4096,32768,edns0[len=24,UDP=4096,ver=0,rcode=0,DO=1,z=0] '' @
           [CHR 0x5C, CHR 0x0A, CHR 0x09] @
           ''edns0[code=8,codelen=8] edns0_client_subnet=192.0.2.0/24 (scope 0)'' @
           ''edns0[code=10,codelen=9] ,[24]'') \<and>
   dump_dns_rr (example_resolv (\<lambda>s. [])) (example_msg subnet_overrun_payload)
       (opt_rr 24) ns_s_ar \<noteq>
     Some (fallback_record (example_resolv (\<lambda>s. [])) (opt_rr 24))"
proof -
  have f: "fallback_record (example_resolv (\<lambda>s. [])) (opt_rr 24) =
      ''.,4096,4096,32768,[24]''"
    by (simp add: fallback_record_def rr_fields_def opt_rr_def example_defs
        show_nat.simps digit_char_def)
  have o1: "edns0_option (example_resolv (\<lambda>s. [])) subnet_overrun_payload 23 24 =
     Some (True, 35, 12, ''edns0[code=8,codelen=8] edns0_client_subnet=192.0.2.0/24 (scope 0)'')"
    by (simp add: opt_rr_def opt_header_bytes_def subnet_overrun_payload_def edns0_option_def MY_GET16_def get_bytes_def inet_ntop4_def
        show_nat.simps digit_char_def)
  have o2: "edns0_option (example_resolv (\<lambda>s. [])) subnet_overrun_payload 35 12 =
     Some (False, 39, 8, ''edns0[code=10,codelen=9] '')"
    by (simp add: opt_rr_def opt_header_bytes_def subnet_overrun_payload_def edns0_option_def MY_GET16_def
        show_nat.simps digit_char_def)
  have w2: "edns0_walk (example_resolv (\<lambda>s. [])) subnet_overrun_payload 35 12 =
     Some (False, 39, 8, ''edns0[code=10,codelen=9] '')"
    by (subst edns0_walk.simps) (simp add: o2)
  have w: "edns0_walk (example_resolv (\<lambda>s. [])) subnet_overrun_payload 23 24 =
     Some (False, 39, 8, ''edns0[code=8,codelen=8] edns0_client_subnet=192.0.2.0/24 (scope 0)'' @
                         ''edns0[code=10,codelen=9] '')"
    by (subst edns0_walk.simps) (simp add: o1 w2)
  have t: "ns_rr_type (opt_rr 24) = ns_t_opt"
    by (simp add: opt_rr_def ns_t_opt_def)
  have w': "edns0_walk (example_resolv (\<lambda>s. [])) (ns_msg_base (example_msg subnet_overrun_payload))
      (ns_rr_rdata (opt_rr 24)) (ns_rr_rdlen (opt_rr 24)) =
     Some (False, 39, 8, ''edns0[code=8,codelen=8] edns0_client_subnet=192.0.2.0/24 (scope 0)'' @
                         ''edns0[code=10,codelen=9] '')"
    using w by (simp add: example_msg_def opt_rr_def)
  have d: "dump_dns_rr (example_resolv (\<lambda>s. [])) (example_msg subnet_overrun_payload)
       (opt_rr 24) ns_s_ar =
     Some (''.,4096,4096,32768,edns0[len=24,UDP=4096,ver=0,rcode=0,DO=1,z=0] '' @
           [CHR 0x5C, CHR 0x0A, CHR 0x09] @
           ''edns0[code=8,codelen=8] edns0_client_subnet=192.0.2.0/24 (scope 0)'' @
           ''edns0[code=10,codelen=9] ,[24]'')"
    using dump_dns_rr_opt [of "opt_rr 24" ns_s_ar "example_resolv (\<lambda>s. [])"
        "example_msg subnet_overrun_payload" False 39 8, OF t _ w']
    by (simp add: opt_rr_def example_defs rr_fields_def edns0_header_def
        show_nat.simps digit_char_def)
  have n: "dump_dns_rr (example_resolv (\<lambda>s. [])) (example_msg subnet_overrun_payload)
       (opt_rr 24) ns_s_ar \<noteq>
     Some (fallback_record (example_resolv (\<lambda>s. [])) (opt_rr 24))"
    unfolding d f by simp
  have a: "after_options (example_resolv (\<lambda>s. [])) subnet_overrun_payload 1 23 24 =
     Some (35, 12, ''edns0[code=8,codelen=8] edns0_client_subnet=192.0.2.0/24 (scope 0)'')"
    by (simp add: o1)
  have l: "be16_at subnet_overrun_payload (35 + 2) = 9" and r: "unat (12 :: u_int16_t) - 4 = 8"
    by (simp_all add: opt_header_bytes_def subnet_overrun_payload_def be16_at_def)
  from t a l r f d n show ?thesis
    by (intro conjI)
qed

text \<open>
  C10. For every OPT record outside the question section whose rdata lies in the message:
  when, after \<open>k\<close> options have been walked, the next option has the code 8 and a declared
  length below 4 that does not exceed the count that remains, the walk stops with the
  pointer at \<open>rd + 4\<close>, where the family field would start, having written only the code
  and the length of the option, and the record ends with the raw-length fallback \<open>,[N]\<close>.
\<close>

theorem short_client_subnet_fallback:
  assumes type: "ns_rr_type rr = ns_t_opt" and sect: "sect \<noteq> ns_s_qd"
    and inside: "ns_rr_rdata rr + unat (ns_rr_rdlen rr) \<le> length (ns_msg_base msg)"
    and passed: "after_options env (ns_msg_base msg) k (ns_rr_rdata rr) (ns_rr_rdlen rr) =
                   Some (rd, optlen, pre)"
    and ge: "4 \<le> optlen"
    and code: "be16_at (ns_msg_base msg) rd = 8"
    and short: "be16_at (ns_msg_base msg) (rd + 2) < 4"
    and fit: "be16_at (ns_msg_base msg) (rd + 2) \<le> unat optlen - 4"
  shows "edns0_walk env (ns_msg_base msg) (ns_rr_rdata rr) (ns_rr_rdlen rr) =
           Some (False, rd + 4, optlen - 4 - word_of_nat (be16_at (ns_msg_base msg) (rd + 2)),
                 pre @ ''edns0[code=8,codelen='' @
                 show_nat (be16_at (ns_msg_base msg) (rd + 2)) @ ''] '') \<and>
         dump_dns_rr env msg rr sect =
           Some (rr_fields env rr @ edns0_header rr @ pre @
                 ''edns0[code=8,codelen='' @ show_nat (be16_at (ns_msg_base msg) (rd + 2)) @
                 ''] '' @ '',['' @ show_nat (unat (ns_rr_rdlen rr)) @ '']'')"
proof -
  have hdr: "rd + 4 \<le> length (ns_msg_base msg)"
    by (rule option_header_inside [OF passed ge inside])
  note walk = edns0_walk_after_options [OF passed
      edns0_walk_abort [OF ge edns0_option_short_subnet [OF hdr ge code short fit]]]
  show ?thesis
    using walk dump_dns_rr_opt [OF type sect walk] by simp
qed

theorem short_client_subnet_fallback_witness:
  "ns_rr_type (opt_rr 6) = ns_t_opt \<and> ns_s_ar \<noteq> ns_s_qd \<and>
   ns_rr_rdata (opt_rr 6) + unat (ns_rr_rdlen (opt_rr 6)) \<le>
     length (ns_msg_base (example_msg short_subnet_payload)) \<and>
   after_options (example_resolv (\<lambda>s. [])) (ns_msg_base (example_msg short_subnet_payload)) 0
     (ns_rr_rdata (opt_rr 6)) (ns_rr_rdlen (opt_rr 6)) = Some (23, 6, []) \<and>
   (4 :: u_int16_t) \<le> 6 \<and>
   be16_at (ns_msg_base (example_msg short_subnet_payload)) 23 = 8 \<and>
   be16_at (ns_msg_base (example_msg short_subnet_payload)) (23 + 2) < 4 \<and>
   be16_at (ns_msg_base (example_msg short_subnet_payload)) (23 + 2) \<le> unat (6 :: u_int16_t) - 4 \<and>
   edns0_walk (example_resolv (\<lambda>s. [])) (ns_msg_base (example_msg short_subnet_payload))
       (ns_rr_rdata (opt_rr 6)) (ns_rr_rdlen (opt_rr 6)) =
     Some (False, 27, 0, ''edns0[code=8,codelen=2] '') \<and>
   dump_dns_rr (example_resolv (\<lambda>s. [])) (example_msg short_subnet_payload) (opt_rr 6) ns_s_ar =
     Some (''.,4096,4096,32768,edns0[len=6,UDP=4096,ver=0,rcode=0,DO=1,z=0] '' @
           [CHR 0x5C, CHR 0x0A, CHR 0x09] @ ''edns0[code=8,codelen=2] ,[6]'')"
proof -
  let ?m = "ns_msg_base (example_msg short_subnet_payload)"
  have t: "ns_rr_type (opt_rr 6) = ns_t_opt" and s: "ns_s_ar \<noteq> ns_s_qd"
    by (simp_all add: opt_rr_def ns_t_opt_def)
  have i: "ns_rr_rdata (opt_rr 6) + unat (ns_rr_rdlen (opt_rr 6)) \<le> length ?m"
    by (simp add: opt_rr_def opt_header_bytes_def short_subnet_payload_def example_msg_def)
  have p: "after_options (example_resolv (\<lambda>s. [])) ?m 0
     (ns_rr_rdata (opt_rr 6)) (ns_rr_rdlen (opt_rr 6)) = Some (23, 6, [])"
    by (simp add: opt_rr_def)
  have g: "(4 :: u_int16_t) \<le> 6"
    by simp
  have c: "be16_at ?m 23 = 8"
    by (simp add: opt_rr_def opt_header_bytes_def short_subnet_payload_def example_msg_def be16_at_def)
  have l: "be16_at ?m (23 + 2) < 4"
    by (simp add: opt_rr_def opt_header_bytes_def short_subnet_payload_def example_msg_def be16_at_def)
  have f: "be16_at ?m (23 + 2) \<le> unat (6 :: u_int16_t) - 4"
    by (simp add: opt_rr_def opt_header_bytes_def short_subnet_payload_def example_msg_def be16_at_def)
  have "edns0_walk (example_resolv (\<lambda>s. [])) ?m
       (ns_rr_rdata (opt_rr 6)) (ns_rr_rdlen (opt_rr 6)) =
     Some (False, 27, 0, ''edns0[code=8,codelen=2] '') \<and>
   dump_dns_rr (example_resolv (\<lambda>s. [])) (example_msg short_subnet_payload) (opt_rr 6) ns_s_ar =
     Some (''.,4096,4096,32768,edns0[len=6,UDP=4096,ver=0,rcode=0,DO=1,z=0] '' @
           [CHR 0x5C, CHR 0x0A, CHR 0x09] @ ''edns0[code=8,codelen=2] ,[6]'')"
    using short_client_subnet_fallback [OF t s i p g c l f]
    by (simp add: opt_rr_def opt_header_bytes_def short_subnet_payload_def example_defs
        rr_fields_def edns0_header_def be16_at_def show_nat.simps digit_char_def)
  with t s i p g c l f show ?thesis
    by (intro conjI) simp_all
qed

subsection \<open>The sections of a message\<close>




subsection \<open>The name of the first question\<close>

text \<open>
  What \<open>get_query_domain\<close> returns: \<open>NULL\<close> when the message does not parse or has no
  question, and the owner name of the first question when that name, with its terminator,
  fits the 256 bytes of \<open>hostname\<close>.
\<close>

lemma length_concat_replicate: "length (concat (replicate n xs)) = n * length xs"
  by (induction n) simp_all

lemma get_query_domain_parse_failure:
  "ns_initparse env payload = Inl errno \<Longrightarrow>
   get_query_domain env payload = Some (strerror env errno, [CHR 0x0A], None)"
  by (simp add: get_query_domain_def)

lemma get_query_domain_no_question:
  "ns_initparse env payload = Inr msg \<Longrightarrow> ns_msg_count msg ns_s_qd = 0 \<Longrightarrow>
   get_query_domain env payload = Some ([], [], None)"
  by (simp add: get_query_domain_def hostname_from_question_def)

lemma get_query_domain_name:
  "ns_initparse env payload = Inr msg \<Longrightarrow> ns_msg_count msg ns_s_qd \<noteq> 0 \<Longrightarrow>
   ns_parserr env msg ns_s_qd 0 = Inr rr \<Longrightarrow> length (ns_rr_name rr) < 256 \<Longrightarrow>
   get_query_domain env payload = Some ([], [], Some (ns_rr_name rr))"
  by (simp add: get_query_domain_def hostname_from_question_def unat_eq_0 Let_def)

lemma get_query_domain_overflow:
  "ns_initparse env payload = Inr msg \<Longrightarrow> ns_msg_count msg ns_s_qd \<noteq> 0 \<Longrightarrow>
   ns_parserr env msg ns_s_qd 0 = Inr rr \<Longrightarrow> 256 \<le> length (ns_rr_name rr) \<Longrightarrow>
   get_query_domain env payload = None"
  by (simp add: get_query_domain_def hostname_from_question_def unat_eq_0 Let_def)

text \<open>
  C9. The accessor is to return the owner name of the first question. For the query below,
  which \<open>ns_initparse\<close> and \<open>ns_parserr\<close> accept and whose owner name has 505 characters,
  the code finds \<open>result_len > sizeof(hostname)\<close>, prints \<open>hostname too long\<close> and goes on
  to \<open>memcpy(hostname, result, result_len)\<close>: no name is returned, the copy writes past the
  array.
\<close>

theorem get_query_domain_long_name:
  "length long_name_payload = 145 \<and>
   ns_initparse long_name_resolv long_name_payload = Inr (example_msg long_name_payload) \<and>
   ns_msg_count (example_msg long_name_payload) ns_s_qd = 1 \<and>
   ns_parserr long_name_resolv (example_msg long_name_payload) ns_s_qd 0 = Inr long_name_rr \<and>
   length (ns_rr_name long_name_rr) = 505 \<and>
   get_query_domain long_name_resolv long_name_payload = None"
proof -
  have n: "length long_name_payload = 145"
    by (simp add: long_name_payload_def)
  have p: "ns_initparse long_name_resolv long_name_payload = Inr (example_msg long_name_payload)"
    by (simp add: long_name_resolv_def example_resolv_def example_initparse_def n)
  have c: "ns_msg_count (example_msg long_name_payload) ns_s_qd = 1"
    by (simp add: example_msg_def long_name_payload_def be16_at_def)
  have r: "ns_parserr long_name_resolv (example_msg long_name_payload) ns_s_qd 0 = Inr long_name_rr"
    by (simp add: long_name_resolv_def example_resolv_def)
  have l: "length (ns_rr_name long_name_rr) = 505"
    by (simp add: long_name_rr_def escaped_label_def length_concat_replicate)
  have "get_query_domain long_name_resolv long_name_payload = None"
    by (simp add: get_query_domain_def hostname_from_question_def p c r l)
  with n p c r l show ?thesis
    by (intro conjI)
qed

end
